theory Spec2Isabelle
  imports Main "HOL-Library.AList" "HOL-Library.Code_Target_Nat"
begin

section \<open>JavaScript values\<close>

text \<open>
  A JavaScript string is a sequence of UTF-16 code units; \<open>JS ''abc''\<close> is the
  string that an ASCII literal of the source denotes.  The strings of the program's state
  (room ids, marks) are of this type, since the handlers compare them with what clients
  send.  Connection ids and the texts of error messages are never compared with
  anything a client sends and stay plain strings.
\<close>

type_synonym jsstring = "nat list"

definition JS :: "string \<Rightarrow> jsstring" where
  "JS s = map of_char s"

text \<open>
  What a client puts into a field of a payload is not typed.  The handlers test these
  values for truthiness, compare them with \<open>===\<close> against strings and \<open>null\<close>,
  and call \<open>trim\<close> on one of them, so the model keeps the kinds of value that these
  operations tell apart: \<open>undefined\<close> (also a field that is missing), \<open>null\<close>, a
  boolean, a number, a string, and an object or array.  Of a number only whether it is
  falsy matters here: \<open>Num 0\<close> stands for the falsy numbers, any other \<open>Num n\<close> for
  a truthy one.  \<open>Object\<close> stands for any object or array; a payload is data, so
  no field holds a function.
\<close>

datatype jsval = Undefined | Null | Bool bool | Num int | Str jsstring | Object

fun truthy :: "jsval \<Rightarrow> bool" where
  "truthy (Str s) = (s \<noteq> [])"
| "truthy (Num n) = (n \<noteq> 0)"
| "truthy (Bool b) = b"
| "truthy Object = True"
| "truthy Undefined = False"
| "truthy Null = False"

fun isStr :: "jsval \<Rightarrow> bool" where
  "isStr (Str s) = True"
| "isStr v = False"

text \<open>The exception that a handler can end with.\<close>

datatype exn = TypeError

text \<open>
  \<open>String.prototype.toUpperCase\<close> and \<open>toLowerCase\<close> follow the case tables of
  the runtime's Unicode version, which are no part of the repository.  They are
  parameters of the model: every theorem below holds for every pair of functions, hence
  for the runtime's.
\<close>

record builtins =
  toUpperCase :: "jsstring \<Rightarrow> jsstring"
  toLowerCase :: "jsstring \<Rightarrow> jsstring"

section \<open>Rooms and the registry\<close>

datatype status = Waiting | Playing | Finished

record room =
  players :: "string list"
  board :: "jsval list"
  currentPlayer :: jsstring
  gameStatus :: status
  fullRoomId :: jsstring
  lastStartingPlayer :: jsstring

text \<open>
  \<open>rooms\<close> is a JavaScript \<open>Map\<close> from the 6-character id to the room object.  A
  \<open>Map\<close> iterates in insertion order, and three handlers scan it in that order, so
  the model is an association list: \<open>rooms.get\<close> is \<open>map_of\<close>, \<open>rooms.set\<close> is
  \<open>AList.update\<close> (a new key goes to the end), \<open>rooms.delete\<close> is \<open>AList.delete\<close>.
\<close>

type_synonym rooms = "(jsstring \<times> room) list"

definition has :: "rooms \<Rightarrow> jsstring \<Rightarrow> bool" where
  "has rs k = (map_of rs k \<noteq> None)"

text \<open>
  The scan \<open>for (const [key, value] of rooms.entries()) if (value.fullRoomId === roomId) ... break\<close>
  of the move, reset and leave handlers: the first entry whose \<open>fullRoomId\<close> is the
  requested value.
\<close>

fun findRoom :: "jsval \<Rightarrow> rooms \<Rightarrow> (jsstring \<times> room) option" where
  "findRoom roomId [] = None"
| "findRoom roomId ((key, val) # rest) =
     (if Str (fullRoomId val) = roomId then Some (key, val) else findRoom roomId rest)"

text \<open>
  The handlers mutate the room object that the scan found; the registry holds that
  object, so the entry the scan stopped at changes in place.
\<close>

fun mutateRoom :: "jsval \<Rightarrow> (room \<Rightarrow> room) \<Rightarrow> rooms \<Rightarrow> rooms" where
  "mutateRoom roomId f [] = []"
| "mutateRoom roomId f ((key, val) # rest) =
     (if Str (fullRoomId val) = roomId then (key, f val) # rest
      else (key, val) # mutateRoom roomId f rest)"

section \<open>Room identifiers\<close>

definition chars :: jsstring where
  "chars = JS ''ABCDEFGHIJKLMNOPQRSTUVWXYZ0123456789''"

text \<open>\<open>String.prototype.charAt\<close>: the empty string outside the string.\<close>

definition charAt :: "jsstring \<Rightarrow> nat \<Rightarrow> jsstring" where
  "charAt s i = (if i < length s then [s ! i] else [])"

text \<open>
  \<open>generateRoomId\<close> draws six times; the argument is the sequence of values
  \<open>Math.floor(Math.random() * chars.length)\<close> still to come, of which it uses the
  first six.
\<close>

definition generateRoomId :: "nat list \<Rightarrow> jsstring" where
  "generateRoomId rnd = concat (map (charAt chars) (take 6 rnd))"

text \<open>
  The loop \<open>while (rooms.has(shortRoomId)) shortRoomId = generateRoomId()\<close> may run
  for ever.  The random draws are its fuel: \<open>None\<close> when they run out before an
  unused id turns up.
\<close>

function pickRoomId :: "rooms \<Rightarrow> nat list \<Rightarrow> jsstring option" where
  "pickRoomId rs rnd =
     (if length rnd < 6 then None
      else if has rs (generateRoomId rnd) then pickRoomId rs (drop 6 rnd)
      else Some (generateRoomId rnd))"
  by pat_completeness auto
termination
  by (relation "measure (\<lambda>(rs, rnd). length rnd)") auto

declare pickRoomId.simps [simp del]

text \<open>The decimal digits of \<open>Date.now()\<close>, as the template literal prints them.\<close>

definition digitChar :: "nat \<Rightarrow> char" where
  "digitChar d = ''0123456789'' ! d"

function showNat :: "nat \<Rightarrow> string" where
  "showNat n = (if n < 10 then [digitChar n] else showNat (n div 10) @ [digitChar (n mod 10)])"
  by pat_completeness auto
termination
  by (relation "measure id") auto

declare showNat.simps [simp del]

text \<open>
  \<open>String.prototype.trim\<close> removes the white space and the line terminators of
  ECMAScript from both ends: TAB, LF, VT, FF, CR, SPACE, NO-BREAK SPACE, the other space
  separators of Unicode (U+1680, U+2000 to U+200A, U+202F, U+205F, U+3000), LINE
  SEPARATOR, PARAGRAPH SEPARATOR and U+FEFF.  Each is one code unit.
\<close>

definition isWhiteSpace :: "nat \<Rightarrow> bool" where
  "isWhiteSpace u =
     (u \<in> set [9, 10, 11, 12, 13, 32, 160, 5760, 8232, 8233, 8239, 8287, 12288, 65279] \<or>
      (8192 \<le> u \<and> u \<le> 8202))"

definition trim :: "jsstring \<Rightarrow> jsstring" where
  "trim s = rev (dropWhile isWhiteSpace (rev (dropWhile isWhiteSpace s)))"

section \<open>Win detection\<close>

definition lines :: "(nat \<times> nat \<times> nat) list" where
  "lines = [(0, 1, 2), (3, 4, 5), (6, 7, 8),
            (0, 3, 6), (1, 4, 7), (2, 5, 8),
            (0, 4, 8), (2, 4, 6)]"

text \<open>An array read: \<open>undefined\<close> outside the array.\<close>

definition cellAt :: "jsval list \<Rightarrow> nat \<Rightarrow> jsval" where
  "cellAt b i = (if i < length b then b ! i else Undefined)"

text \<open>The \<open>for\<close> loop over the lines, which returns at the first line that matches.\<close>

fun firstLine :: "jsval list \<Rightarrow> (nat \<times> nat \<times> nat) list \<Rightarrow> jsval option" where
  "firstLine b [] = None"
| "firstLine b ((i, j, k) # ls) =
     (if truthy (cellAt b i) \<and> cellAt b i = cellAt b j \<and> cellAt b i = cellAt b k
      then Some (cellAt b i) else firstLine b ls)"

definition checkWinner :: "jsval list \<Rightarrow> jsval" where
  "checkWinner b =
     (case firstLine b lines of
        Some w \<Rightarrow> w
      | None \<Rightarrow> if list_all (\<lambda>cell. cell \<noteq> Null) b then Str (JS ''draw'') else Null)"

section \<open>What a handler sends\<close>

datatype event =
    GameJoined jsstring jsstring jsstring bool
  | GameError string
  | GamePlayerJoined jsstring
  | GameMove "jsval list" jsstring jsval
  | GameLeft
  | GameOpponentLeft

text \<open>
  The calls on the transport, in the order the handler makes them.  The first
  argument of the \<open>Socket\<close> effects is the sender's \<open>socket.id\<close>.
  \<open>SocketEmit\<close> reaches the sender alone, \<open>IoToEmit\<close> every member of a group,
  \<open>SocketToEmit\<close> every member of a group but the sender.
\<close>

datatype effect =
    SocketJoin string jsstring
  | SocketLeave string jsval
  | SocketEmit string event
  | IoToEmit jsval event
  | SocketToEmit string jsval event

section \<open>The handlers\<close>

definition newRoom :: "string \<Rightarrow> jsstring \<Rightarrow> room" where
  "newRoom sid fullId =
     \<lparr> players = [sid], board = replicate 9 Null, currentPlayer = JS ''X'',
       gameStatus = Waiting, fullRoomId = fullId, lastStartingPlayer = JS ''X'' \<rparr>"

text \<open>\<open>game:create-room\<close>; \<open>now\<close> is \<open>Date.now()\<close>.\<close>

definition createRoom ::
  "builtins \<Rightarrow> string \<Rightarrow> nat list \<Rightarrow> nat \<Rightarrow> rooms \<Rightarrow> (rooms \<times> effect list) option" where
  "createRoom rt sid rnd now rs =
     (case pickRoomId rs rnd of
        None \<Rightarrow> None
      | Some shortRoomId \<Rightarrow>
          let fullId = JS ''room-'' @ JS (showNat now) @ JS ''-'' @ toLowerCase rt shortRoomId
          in Some (AList.update shortRoomId (newRoom sid fullId) rs,
                   [SocketJoin sid fullId,
                    SocketEmit sid (GameJoined fullId shortRoomId (JS ''X'') True)]))"

text \<open>
  \<open>game:join-room\<close>, for a payload that destructures.  \<open>!roomId\<close> holds of the
  falsy values and ends the handler with the error reply.  On a truthy value that is
  no string (a number, \<open>true\<close>, an object) the call \<open>roomId.trim()\<close> throws a
  \<open>TypeError\<close>: nothing was sent or changed before it.
\<close>

definition joinRoom :: "builtins \<Rightarrow> string \<Rightarrow> jsval \<Rightarrow> rooms \<Rightarrow> exn + rooms \<times> effect list" where
  "joinRoom rt sid roomId rs =
     (if \<not> truthy roomId
      then Inr (rs, [SocketEmit sid (GameError ''Invalid room ID. Please enter a room ID.'')])
      else
        case roomId of
          Str s \<Rightarrow>
            if length (trim s) = 0
            then Inr (rs, [SocketEmit sid (GameError ''Invalid room ID. Please enter a room ID.'')])
            else
              let shortRoomId = toUpperCase rt (trim s) in
              (case map_of rs shortRoomId of
                 None \<Rightarrow>
                   Inr (rs, [SocketEmit sid (GameError ''Room not found. Please check the room ID.'')])
               | Some r \<Rightarrow>
                   if length (players r) \<ge> 2
                   then Inr (rs, [SocketEmit sid (GameError ''Room is full. Maximum 2 players allowed.'')])
                   else if sid \<in> set (players r)
                   then Inr (rs, [SocketEmit sid (GameError ''You are already in this room.'')])
                   else
                     let r1 = r\<lparr>players := players r @ [sid]\<rparr>;
                         r2 = (if lastStartingPlayer r1 = [] then r1\<lparr>lastStartingPlayer := JS ''X''\<rparr> else r1);
                         r3 = r2\<lparr>gameStatus := Playing, currentPlayer := lastStartingPlayer r2\<rparr>
                     in Inr (AList.update shortRoomId r3 rs,
                             [SocketJoin sid (fullRoomId r),
                              SocketEmit sid (GameJoined (fullRoomId r) shortRoomId (JS ''O'') False),
                              IoToEmit (Str (fullRoomId r)) (GamePlayerJoined (JS ''X''))]))
        | _ \<Rightarrow> Inl TypeError)"

text \<open>
  \<open>room.board[index]\<close>.  The field \<open>index\<close> is kept as the integer that its
  property key denotes; a key that denotes no integer (a fraction, \<open>undefined\<close>,
  \<open>"length"\<close>) reads \<open>undefined\<close> or a property of the array, none of which is
  \<open>null\<close>, as an integer outside the array does, and any such integer stands for it.
\<close>

definition boardAt :: "jsval list \<Rightarrow> int \<Rightarrow> jsval" where
  "boardAt b i = (if i < 0 then Undefined else cellAt b (nat i))"

text \<open>
  \<open>room.board[index] = symbol\<close>: inside the array the cell is replaced; past the end
  JavaScript extends the array, the holes reading \<open>undefined\<close>; a negative index sets a
  property and leaves the elements alone.
\<close>

definition boardSet :: "jsval list \<Rightarrow> int \<Rightarrow> jsval \<Rightarrow> jsval list" where
  "boardSet b i v =
     (if i < 0 then b
      else if nat i < length b then b[nat i := v]
      else b @ replicate (nat i - length b) Undefined @ [v])"

definition move :: "string \<Rightarrow> jsval \<Rightarrow> int \<Rightarrow> jsval \<Rightarrow> rooms \<Rightarrow> rooms \<times> effect list" where
  "move sid roomId index symbol rs =
     (case findRoom roomId rs of
        None \<Rightarrow> (rs, [SocketEmit sid (GameError ''Room not found'')])
      | Some (shortRoomId, r) \<Rightarrow>
          if gameStatus r \<noteq> Playing
          then (rs, [SocketEmit sid (GameError ''Game is not in progress'')])
          else if Str (currentPlayer r) \<noteq> symbol
          then (rs, [SocketEmit sid (GameError ''Not your turn'')])
          else if boardAt (board r) index \<noteq> Null
          then (rs, [SocketEmit sid (GameError ''Cell already occupied'')])
          else
            let b = boardSet (board r) index symbol;
                cp = (if symbol = Str (JS ''X'') then JS ''O'' else JS ''X'');
                winner = checkWinner b;
                st = (if truthy winner then Finished else gameStatus r)
            in (mutateRoom roomId (\<lambda>r. r\<lparr>board := b, currentPlayer := cp, gameStatus := st\<rparr>) rs,
                [IoToEmit roomId (GameMove b cp winner)]))"

definition reset :: "string \<Rightarrow> jsval \<Rightarrow> rooms \<Rightarrow> rooms \<times> effect list" where
  "reset sid roomId rs =
     (case findRoom roomId rs of
        None \<Rightarrow> (rs, [SocketEmit sid (GameError ''Room not found'')])
      | Some (shortRoomId, r) \<Rightarrow>
          let starter = (if lastStartingPlayer r = JS ''X'' then JS ''O'' else JS ''X'');
              b = replicate 9 Null
          in (mutateRoom roomId
                (\<lambda>r. r\<lparr>lastStartingPlayer := starter, board := b,
                       currentPlayer := starter, gameStatus := Playing\<rparr>) rs,
              [IoToEmit roomId (GameMove b starter Null)]))"

definition leave :: "string \<Rightarrow> jsval \<Rightarrow> rooms \<Rightarrow> rooms \<times> effect list" where
  "leave sid roomId rs =
     (case findRoom roomId rs of
        None \<Rightarrow> (rs, [SocketLeave sid roomId])
      | Some (shortRoomId, r) \<Rightarrow>
          let ps = filter (\<lambda>id. id \<noteq> sid) (players r);
              rs1 = mutateRoom roomId (\<lambda>r. r\<lparr>players := ps\<rparr>) rs
          in if length ps = 0
             then (AList.delete shortRoomId rs1,
                   [SocketEmit sid GameLeft, SocketLeave sid roomId])
             else (rs1,
                   [SocketEmit sid GameLeft, SocketToEmit sid roomId GameOpponentLeft,
                    SocketLeave sid roomId]))"

text \<open>
  \<open>disconnect\<close>: one pass over the entries.  Deleting the current entry of a
  \<open>Map\<close> during its iteration is allowed and the iteration goes on with the next one.
\<close>

fun disconnect :: "string \<Rightarrow> rooms \<Rightarrow> rooms \<times> effect list" where
  "disconnect sid [] = ([], [])"
| "disconnect sid ((shortRoomId, r) # rest) =
     (let (rest', out) = disconnect sid rest in
      if sid \<in> set (players r) then
        let ps = filter (\<lambda>id. id \<noteq> sid) (players r) in
        if length ps = 0 then (rest', out)
        else ((shortRoomId, r\<lparr>players := ps\<rparr>) # rest',
              SocketToEmit sid (Str (fullRoomId r)) GameOpponentLeft # out)
      else ((shortRoomId, r) # rest', out))"

section \<open>The server as a transition system\<close>

text \<open>
  The listeners whose callback destructures its argument, \<open>({ roomId }) => ...\<close>.
\<close>

datatype listener = OnJoinRoom | OnMove | OnReset | OnLeave

text \<open>
  A request is an event with its payload, given by the fields that the callback
  destructures; a field that the payload lacks is \<open>Undefined\<close>, and so is every
  field of a payload that is a number, a boolean or a string.  An event emitted with no
  payload, or with \<open>null\<close>, does not destructure: that is \<open>NoPayload\<close>.
\<close>

datatype request =
    CreateRoom "nat list" nat
  | JoinRoom jsval
  | Move jsval int jsval
  | Reset jsval
  | Leave jsval
  | Disconnect
  | NoPayload listener

text \<open>
  How a handler ends: it returns, having left a registry and sent messages; it throws,
  having done neither; or it is still in the loop of create-room when the random draws
  are used up.
\<close>

datatype outcome = Returns "rooms \<times> effect list" | Throws exn | Unfinished

fun handle :: "builtins \<Rightarrow> string \<Rightarrow> request \<Rightarrow> rooms \<Rightarrow> outcome" where
  "handle rt sid (CreateRoom rnd now) rs =
     (case createRoom rt sid rnd now rs of None \<Rightarrow> Unfinished | Some res \<Rightarrow> Returns res)"
| "handle rt sid (JoinRoom roomId) rs =
     (case joinRoom rt sid roomId rs of Inl e \<Rightarrow> Throws e | Inr res \<Rightarrow> Returns res)"
| "handle rt sid (Move roomId index symbol) rs = Returns (move sid roomId index symbol rs)"
| "handle rt sid (Reset roomId) rs = Returns (reset sid roomId rs)"
| "handle rt sid (Leave roomId) rs = Returns (leave sid roomId rs)"
| "handle rt sid Disconnect rs = Returns (disconnect sid rs)"
| "handle rt sid (NoPayload l) rs = Throws TypeError"

text \<open>
  The registries the server can be in: it starts empty and handles one request at a
  time.  A handler that throws has changed nothing, so it adds no registry.
\<close>

inductive reachable :: "builtins \<Rightarrow> rooms \<Rightarrow> bool" for rt :: builtins where
  init: "reachable rt []"
| step: "reachable rt rs \<Longrightarrow> handle rt sid req rs = Returns (rs', out) \<Longrightarrow> reachable rt rs'"

section \<open>Well-formed rooms\<close>

text \<open>
  What the data model says of a room, as far as the code keeps it: nine cells, each
  empty or one of the two marks; the two turn fields hold a mark; one or two players;
  a waiting room has one player.  The registry's keys are distinct, as the keys of a
  \<open>Map\<close> are.
\<close>

definition cellOk :: "jsval \<Rightarrow> bool" where
  "cellOk c = (c = Null \<or> c = Str (JS ''X'') \<or> c = Str (JS ''O''))"

definition roomOk :: "room \<Rightarrow> bool" where
  "roomOk r =
     (length (board r) = 9 \<and> list_all cellOk (board r) \<and>
      (currentPlayer r = JS ''X'' \<or> currentPlayer r = JS ''O'') \<and>
      (lastStartingPlayer r = JS ''X'' \<or> lastStartingPlayer r = JS ''O'') \<and>
      players r \<noteq> [] \<and> length (players r) \<le> 2 \<and>
      (gameStatus r = Waiting \<longrightarrow> length (players r) = 1))"

definition registryOk :: "rooms \<Rightarrow> bool" where
  "registryOk rs = (distinct (map fst rs) \<and> (\<forall>p \<in> set rs. roomOk (snd p)))"

section \<open>Notions used in the statements\<close>

text \<open>The ternary \<open>x === 'X' ? 'O' : 'X'\<close> of the move and reset handlers, on a mark.\<close>

definition opposite :: "jsstring \<Rightarrow> jsstring" where
  "opposite s = (if s = JS ''X'' then JS ''O'' else JS ''X'')"

text \<open>
  The precondition of a move on a room that was found, in the words of the
  specification: status is playing, symbol is currentPlayer, board[index] is empty.
\<close>

definition movePrecondition :: "room \<Rightarrow> int \<Rightarrow> jsval \<Rightarrow> bool" where
  "movePrecondition r index symbol =
     (gameStatus r = Playing \<and> symbol = Str (currentPlayer r) \<and> boardAt (board r) index = Null)"

text \<open>The handler sent one error message, to the sender, and nothing else.\<close>

fun errorReplyTo :: "string \<Rightarrow> effect list \<Rightarrow> bool" where
  "errorReplyTo sid [SocketEmit s (GameError msg)] = (s = sid)"
| "errorReplyTo sid out = False"

text \<open>The handler sent one state broadcast, to the group, and nothing else.\<close>

fun stateBroadcastTo :: "jsval \<Rightarrow> effect list \<Rightarrow> bool" where
  "stateBroadcastTo g [IoToEmit g' (GameMove b cp w)] = (g' = g)"
| "stateBroadcastTo g out = False"

text \<open>
  A board of the data model: nine cells, each empty or holding one of the two marks.
\<close>

definition boardOk :: "jsval list \<Rightarrow> bool" where
  "boardOk b = (length b = 9 \<and> list_all cellOk b)"

text \<open>The three cells of a triple hold the mark \<open>m\<close>.\<close>

fun fillsLine :: "jsstring \<Rightarrow> jsval list \<Rightarrow> nat \<times> nat \<times> nat \<Rightarrow> bool" where
  "fillsLine m b (i, j, k) = (cellAt b i = Str m \<and> cellAt b j = Str m \<and> cellAt b k = Str m)"

text \<open>The mark \<open>m\<close> fills one of the eight triples.\<close>

definition fills :: "jsstring \<Rightarrow> jsval list \<Rightarrow> bool" where
  "fills m b = list_ex (fillsLine m b) lines"

text \<open>
  The mark \<open>m\<close> fills a triple, and no triple before that one in the fixed order
  (rows, columns, diagonals) is filled by either mark.
\<close>

definition fillsFirst :: "jsstring \<Rightarrow> jsval list \<Rightarrow> bool" where
  "fillsFirst m b =
     (\<exists>n \<in> {0..<length lines}. fillsLine m b (lines ! n) \<and>
        (\<forall>n' \<in> {0..<n}. \<not> fillsLine (JS ''X'') b (lines ! n') \<and> \<not> fillsLine (JS ''O'') b (lines ! n')))"

text \<open>Every cell is filled.\<close>

definition full :: "jsval list \<Rightarrow> bool" where
  "full b = list_all (\<lambda>cell. cell \<noteq> Null) b"


text \<open>The scan for the internal id stops at the entry with key \<open>k\<close>.\<close>

definition addresses :: "jsval \<Rightarrow> rooms \<Rightarrow> jsstring \<Rightarrow> bool" where
  "addresses roomId rs k = (case findRoom roomId rs of None \<Rightarrow> False | Some (k', r) \<Rightarrow> k' = k)"

text \<open>
  The preconditions of the specification's table.  For a join: the short id is not
  empty after trimming, the room exists, it has fewer than two players, and the sender
  is not one of them.  For a move: the room is found and the move is legal in it.
\<close>

definition joinPrecondition :: "builtins \<Rightarrow> string \<Rightarrow> jsval \<Rightarrow> rooms \<Rightarrow> bool" where
  "joinPrecondition rt sid roomId rs =
     (case roomId of
        Str s \<Rightarrow>
          trim s \<noteq> [] \<and>
          (case map_of rs (toUpperCase rt (trim s)) of
             None \<Rightarrow> False
           | Some r \<Rightarrow> length (players r) < 2 \<and> sid \<notin> set (players r))
      | _ \<Rightarrow> False)"

text \<open>
  The room identifier of a join is one that the handler's validation can read: a
  falsy value or a string.
\<close>

definition joinReadable :: "jsval \<Rightarrow> bool" where
  "joinReadable roomId = (\<not> truthy roomId \<or> isStr roomId)"

text \<open>The registry key that a join asks for.\<close>

definition joinKey :: "builtins \<Rightarrow> jsval \<Rightarrow> jsstring option" where
  "joinKey rt roomId = (case roomId of Str s \<Rightarrow> Some (toUpperCase rt (trim s)) | _ \<Rightarrow> None)"



text \<open>What a handler sends to a whole group.\<close>

fun isBroadcast :: "effect \<Rightarrow> bool" where
  "isBroadcast (IoToEmit g e) = True"
| "isBroadcast e = False"

definition broadcasts :: "effect list \<Rightarrow> effect list" where
  "broadcasts out = filter isBroadcast out"

text \<open>The relation between status and number of players that the specification states.\<close>

definition statusMatchesPlayers :: "room \<Rightarrow> bool" where
  "statusMatchesPlayers r =
     ((gameStatus r = Playing \<longrightarrow> length (players r) = 2) \<and>
      (gameStatus r = Waiting \<longrightarrow> length (players r) = 1))"

text \<open>The requests that change neither the status nor the players independently of each other.\<close>

fun keepsStatusRelation :: "request \<Rightarrow> bool" where
  "keepsStatusRelation (CreateRoom rnd now) = True"
| "keepsStatusRelation (JoinRoom roomId) = True"
| "keepsStatusRelation (Move roomId index symbol) = True"
| "keepsStatusRelation req = False"

text \<open>The request takes the sender out of the room with key \<open>k\<close>, if the sender is in it.\<close>

fun removesSenderFrom :: "request \<Rightarrow> rooms \<Rightarrow> jsstring \<Rightarrow> bool" where
  "removesSenderFrom (Leave roomId) rs k = addresses roomId rs k"
| "removesSenderFrom Disconnect rs k = True"
| "removesSenderFrom req rs k = False"

text \<open>The request is a reset of the room with key \<open>k\<close>.\<close>

fun resetsRoom :: "request \<Rightarrow> rooms \<Rightarrow> jsstring \<Rightarrow> bool" where
  "resetsRoom (Reset roomId) rs k = addresses roomId rs k"
| "resetsRoom req rs k = False"

text \<open>
  The room objects that the handlers leave behind: after a join, after an accepted
  move, after a reset, and after the sender was filtered out of the players.
\<close>

definition joinedRoom :: "string \<Rightarrow> room \<Rightarrow> room" where
  "joinedRoom sid r =
     r\<lparr>players := players r @ [sid],
       lastStartingPlayer := (if lastStartingPlayer r = [] then JS ''X'' else lastStartingPlayer r),
       gameStatus := Playing,
       currentPlayer := (if lastStartingPlayer r = [] then JS ''X'' else lastStartingPlayer r)\<rparr>"

definition movedRoom :: "int \<Rightarrow> jsval \<Rightarrow> room \<Rightarrow> room" where
  "movedRoom index symbol r =
     r\<lparr>board := (board r)[nat index := symbol],
       currentPlayer := opposite (currentPlayer r),
       gameStatus := (if checkWinner ((board r)[nat index := symbol]) \<noteq> Null
                      then Finished else Playing)\<rparr>"

definition resetRoom :: "room \<Rightarrow> room" where
  "resetRoom r =
     r\<lparr>lastStartingPlayer := opposite (lastStartingPlayer r), board := replicate 9 Null,
       currentPlayer := opposite (lastStartingPlayer r), gameStatus := Playing\<rparr>"

definition withoutPlayer :: "string \<Rightarrow> room \<Rightarrow> room" where
  "withoutPlayer sid r = r\<lparr>players := filter (\<lambda>id. id \<noteq> sid) (players r)\<rparr>"

text \<open>
  The registry after a handler has ended.  A handler that throws leaves the registry
  as it was; what becomes of the process is not modelled, and a run that goes on, goes on
  from that registry.
\<close>

fun registryAfter :: "outcome \<Rightarrow> rooms \<Rightarrow> rooms option" where
  "registryAfter (Returns (rs', out)) rs = Some rs'"
| "registryAfter (Throws e) rs = Some rs"
| "registryAfter Unfinished rs = None"

text \<open>A run of the server: the requests of a list, one after the other.\<close>

fun run :: "builtins \<Rightarrow> (string \<times> request) list \<Rightarrow> rooms \<Rightarrow> rooms option" where
  "run rt [] rs = Some rs"
| "run rt ((sid, req) # evs) rs =
     (case registryAfter (handle rt sid req rs) rs of
        None \<Rightarrow> None
      | Some rs' \<Rightarrow> run rt evs rs')"

text \<open>
  The marks of the moves that are accepted in the room registered under the key
  \<open>k\<close>, in the order in which a run of requests has them accepted.
\<close>

fun acceptedMark :: "jsstring \<Rightarrow> request \<Rightarrow> rooms \<Rightarrow> jsval list" where
  "acceptedMark k (Move roomId index symbol) rs =
     (case findRoom roomId rs of
        None \<Rightarrow> []
      | Some (k', r) \<Rightarrow> if k' = k \<and> movePrecondition r index symbol then [symbol] else [])"
| "acceptedMark k req rs = []"

fun acceptedMoves :: "builtins \<Rightarrow> jsstring \<Rightarrow> (string \<times> request) list \<Rightarrow> rooms \<Rightarrow> jsval list" where
  "acceptedMoves rt k [] rs = []"
| "acceptedMoves rt k ((sid, req) # evs) rs =
     acceptedMark k req rs @
     (case registryAfter (handle rt sid req rs) rs of
        None \<Rightarrow> []
      | Some rs' \<Rightarrow> acceptedMoves rt k evs rs')"

text \<open>
  A request starts a game in the room registered under \<open>k\<close>: a join of that room
  that succeeds, or a reset that finds it.  Both set currentPlayer to the opener.
\<close>

fun startsGame :: "builtins \<Rightarrow> string \<Rightarrow> request \<Rightarrow> rooms \<Rightarrow> jsstring \<Rightarrow> bool" where
  "startsGame rt sid (JoinRoom roomId) rs k =
     (joinPrecondition rt sid roomId rs \<and> joinKey rt roomId = Some k)"
| "startsGame rt sid (Reset roomId) rs k = addresses roomId rs k"
| "startsGame rt sid req rs k = False"

text \<open>A run stays within one game of the room registered under \<open>k\<close>: no request of it starts one.\<close>

fun oneGame :: "builtins \<Rightarrow> jsstring \<Rightarrow> (string \<times> request) list \<Rightarrow> rooms \<Rightarrow> bool" where
  "oneGame rt k [] rs = True"
| "oneGame rt k ((sid, req) # evs) rs =
     (\<not> startsGame rt sid req rs k \<and>
      (case registryAfter (handle rt sid req rs) rs of
         None \<Rightarrow> True
       | Some rs' \<Rightarrow> oneGame rt k evs rs'))"

text \<open>No request of the run is a reset.\<close>

fun isReset :: "request \<Rightarrow> bool" where
  "isReset (Reset roomId) = True"
| "isReset req = False"

text \<open>Two marks that are the two different symbols, and a list in which neighbours are.\<close>

definition oppositeMarks :: "jsval \<Rightarrow> jsval \<Rightarrow> bool" where
  "oppositeMarks s s' = ((s = Str (JS ''X'') \<and> s' = Str (JS ''O'')) \<or> (s = Str (JS ''O'') \<and> s' = Str (JS ''X'')))"

fun alternating :: "jsval list \<Rightarrow> bool" where
  "alternating (s # s' # rest) = (oppositeMarks s s' \<and> alternating (s' # rest))"
| "alternating marks = True"

text \<open>
  To run the model on ASCII inputs: case conversions that agree with the runtime's on
  ASCII strings.
\<close>

definition asciiUpper :: "jsstring \<Rightarrow> jsstring" where
  "asciiUpper s = map (\<lambda>u. if 97 \<le> u \<and> u \<le> 122 then u - 32 else u) s"

definition asciiLower :: "jsstring \<Rightarrow> jsstring" where
  "asciiLower s = map (\<lambda>u. if 65 \<le> u \<and> u \<le> 90 then u + 32 else u) s"

definition ascii :: builtins where
  "ascii = \<lparr> toUpperCase = asciiUpper, toLowerCase = asciiLower \<rparr>"

text \<open>
  A registry to try the statements on: \<open>a\<close> has created a room and \<open>b\<close> has
  joined it.
\<close>

definition roomA :: room where
  "roomA = \<lparr> players = [''a'', ''b''], board = replicate 9 Null, currentPlayer = JS ''X'',
             gameStatus = Playing, fullRoomId = JS ''room-17-aaaaaa'', lastStartingPlayer = JS ''X'' \<rparr>"

definition registryA :: rooms where
  "registryA = [(JS ''AAAAAA'', roomA)]"

text \<open>The registry before \<open>b\<close> joined: \<open>a\<close> waits alone.\<close>

definition registryW :: rooms where
  "registryW = [(JS ''AAAAAA'', newRoom ''a'' (JS ''room-17-aaaaaa''))]"

text \<open>The registry after X has played the centre of the room of \<open>registryA\<close>.\<close>

definition roomX :: room where
  "roomX = roomA\<lparr>board := (replicate 9 Null)[4 := Str (JS ''X'')], currentPlayer := JS ''O''\<rparr>"

definition registryX :: rooms where
  "registryX = [(JS ''AAAAAA'', roomX)]"

text \<open>
  Eight requests that concern the room of \<open>registryA\<close> and start no game in it:
  the second move is out of turn, the join finds the room full, the sixth request aims
  at a filled cell, and \<open>b\<close> disconnects before the last move.
\<close>

definition gameA :: "(string \<times> request) list" where
  "gameA =
     [(''a'', Move (Str (JS ''room-17-aaaaaa'')) 0 (Str (JS ''X''))),
      (''a'', Move (Str (JS ''room-17-aaaaaa'')) 1 (Str (JS ''X''))),
      (''d'', CreateRoom [1, 1, 1, 1, 1, 1] 18),
      (''b'', Move (Str (JS ''room-17-aaaaaa'')) 4 (Str (JS ''O''))),
      (''c'', JoinRoom (Str (JS ''aaaaaa''))),
      (''c'', Move (Str (JS ''room-17-aaaaaa'')) 4 (Str (JS ''X''))),
      (''b'', Disconnect),
      (''c'', Move (Str (JS ''room-17-aaaaaa'')) 1 (Str (JS ''X'')))]"

text \<open>
  Four requests for the same room, none of them a reset: X plays, \<open>b\<close> leaves,
  \<open>c\<close> joins, X plays.
\<close>

definition rejoinA :: "(string \<times> request) list" where
  "rejoinA =
     [(''a'', Move (Str (JS ''room-17-aaaaaa'')) 0 (Str (JS ''X''))),
      (''b'', Leave (Str (JS ''room-17-aaaaaa''))),
      (''c'', JoinRoom (Str (JS ''aaaaaa''))),
      (''a'', Move (Str (JS ''room-17-aaaaaa'')) 1 (Str (JS ''X'')))]"

section \<open>String literals\<close>

lemma JS_eq_iff [simp]: "JS a = JS b \<longleftrightarrow> a = b"
proof -
  have "inj (of_char :: char \<Rightarrow> nat)" by (rule injI) simp
  then have "inj (map (of_char :: char \<Rightarrow> nat))" by simp
  then show ?thesis unfolding JS_def by (auto dest: injD)
qed

lemma JS_Nil_iff [simp]: "JS a = [] \<longleftrightarrow> a = []" and Nil_JS_iff [simp]: "[] = JS a \<longleftrightarrow> a = []"
  by (auto simp: JS_def)

lemma trim_Nil: "trim [] = []"
  by (simp add: trim_def)

text \<open>
  A room identifier made of a no-break space, a line separator and U+FEFF is empty after
  trimming, and the join is answered with the invalid-id reply.
\<close>

lemma trim_unicode_space: "trim [160, 8232, 65279] = []"
  by code_simp

lemma join_unicode_space:
  "joinRoom rt sid (Str [160, 8232, 65279]) rs =
     Inr (rs, [SocketEmit sid (GameError ''Invalid room ID. Please enter a room ID.'')])"
  by (simp add: joinRoom_def trim_unicode_space)

section \<open>The scan and the in-place update\<close>

lemma findRoom_Some:
  "findRoom rid rs = Some (k, r) \<Longrightarrow> (k, r) \<in> set rs \<and> Str (fullRoomId r) = rid"
  by (induction rs) (auto split: if_splits)

lemma findRoom_None:
  "findRoom rid rs = None \<Longrightarrow> mutateRoom rid f rs = rs"
  by (induction rs) (auto split: if_splits)

lemma mutateRoom_keys: "map fst (mutateRoom rid f rs) = map fst rs"
  by (induction rs) auto

lemma mutateRoom_set:
  "findRoom rid rs = Some (k, r) \<Longrightarrow> set (mutateRoom rid f rs) \<subseteq> insert (k, f r) (set rs)"
  by (induction rs) (auto split: if_splits)

lemma findRoom_map_of:
  "distinct (map fst rs) \<Longrightarrow> findRoom rid rs = Some (k, r) \<Longrightarrow> map_of rs k = Some r"
  using findRoom_Some by fastforce

lemma mutateRoom_map_of:
  "distinct (map fst rs) \<Longrightarrow> findRoom rid rs = Some (k, r) \<Longrightarrow>
   map_of (mutateRoom rid f rs) = (map_of rs)(k \<mapsto> f r)"
proof (induction rs)
  case Nil
  then show ?case by simp
next
  case (Cons p rs)
  obtain k' r' where p: "p = (k', r')" by (cases p)
  show ?case
  proof (cases "Str (fullRoomId r') = rid")
    case True
    with Cons.prems p show ?thesis by auto
  next
    case False
    with Cons.prems p have f: "findRoom rid rs = Some (k, r)" and d: "distinct (map fst rs)"
      by auto
    from findRoom_Some[OF f] Cons.prems(1) p have "k \<noteq> k'" by force
    with Cons.IH[OF d f] False p show ?thesis by auto
  qed
qed

lemma findRoom_mutateRoom:
  "(\<And>r. fullRoomId (f r) = fullRoomId r) \<Longrightarrow>
   findRoom rid (mutateRoom rid f rs) = map_option (\<lambda>(k, r). (k, f r)) (findRoom rid rs)"
  by (induction rs) auto

lemma update_set: "set (AList.update k v rs) \<subseteq> insert (k, v) (set rs)"
  by (induction rs) auto

lemma delete_set: "set (AList.delete k rs) \<subseteq> set rs"
  by (auto simp: AList.delete_eq)

lemma registryOk_mutate:
  assumes "registryOk rs" "findRoom rid rs = Some (k, r)" "roomOk (f r)"
  shows "registryOk (mutateRoom rid f rs)"
  using assms mutateRoom_set[OF assms(2), of f]
  by (auto simp: registryOk_def mutateRoom_keys)

lemma registryOk_find:
  "registryOk rs \<Longrightarrow> findRoom rid rs = Some (k, r) \<Longrightarrow> roomOk r"
  by (auto simp: registryOk_def dest!: findRoom_Some)

lemma pickRoomId_fresh: "pickRoomId rs rnd = Some k \<Longrightarrow> \<not> has rs k"
  by (induction rs rnd rule: pickRoomId.induct) (subst (asm) pickRoomId.simps, auto split: if_splits)

lemma roomOk_newRoom: "roomOk (newRoom sid fid)"
  by (simp add: roomOk_def newRoom_def cellOk_def list_all_iff)

lemma registryOk_create:
  "registryOk rs \<Longrightarrow> createRoom rt sid rnd now rs = Some (rs', out) \<Longrightarrow> registryOk rs'"
  using update_set roomOk_newRoom
  by (fastforce simp: createRoom_def registryOk_def Let_def AList.distinct_update split: option.splits)

lemma registryOk_lookup:
  "registryOk rs \<Longrightarrow> map_of rs k = Some r \<Longrightarrow> roomOk r"
  by (auto simp: registryOk_def dest!: map_of_SomeD)

lemma registryOk_update:
  "registryOk rs \<Longrightarrow> roomOk r \<Longrightarrow> registryOk (AList.update k r rs)"
  using update_set[of k r rs] by (auto simp: registryOk_def AList.distinct_update)

lemma registryOk_delete:
  "registryOk rs \<Longrightarrow> registryOk (AList.delete k rs)"
  using delete_set[of k rs] by (auto simp: registryOk_def AList.distinct_delete)

lemma join_throws:
  "truthy roomId \<Longrightarrow> \<not> isStr roomId \<Longrightarrow> joinRoom rt sid roomId rs = Inl TypeError"
  by (cases roomId) (simp_all add: joinRoom_def)

lemma join_failure:
  assumes "joinReadable roomId" and "\<not> joinPrecondition rt sid roomId rs"
  shows "\<exists>msg. joinRoom rt sid roomId rs = Inr (rs, [SocketEmit sid (GameError msg)])"
proof (cases "truthy roomId")
  case False
  then show ?thesis by (simp add: joinRoom_def)
next
  case True
  with assms(1) obtain s where s: "roomId = Str s" and ne: "s \<noteq> []"
    by (cases roomId) (auto simp: joinReadable_def)
  with assms(2) show ?thesis
    by (auto simp: joinRoom_def joinPrecondition_def Let_def split: option.splits)
qed

lemma join_accepted:
  assumes "joinPrecondition rt sid roomId rs"
  shows "\<exists>s r0. roomId = Str s \<and> map_of rs (toUpperCase rt (trim s)) = Some r0 \<and>
           length (players r0) < 2 \<and> sid \<notin> set (players r0) \<and>
           joinRoom rt sid roomId rs =
             Inr (AList.update (toUpperCase rt (trim s)) (joinedRoom sid r0) rs,
                  [SocketJoin sid (fullRoomId r0),
                   SocketEmit sid (GameJoined (fullRoomId r0) (toUpperCase rt (trim s)) (JS ''O'') False),
                   IoToEmit (Str (fullRoomId r0)) (GamePlayerJoined (JS ''X''))])"
proof -
  from assms obtain s r0 where s: "roomId = Str s" and t: "trim s \<noteq> []"
    and look: "map_of rs (toUpperCase rt (trim s)) = Some r0"
    and few: "length (players r0) < 2" and new: "sid \<notin> set (players r0)"
    by (auto simp: joinPrecondition_def split: jsval.splits option.splits)
  from t have "s \<noteq> []" using trim_Nil by auto
  with s t look few new have "joinRoom rt sid roomId rs =
             Inr (AList.update (toUpperCase rt (trim s)) (joinedRoom sid r0) rs,
                  [SocketJoin sid (fullRoomId r0),
                   SocketEmit sid (GameJoined (fullRoomId r0) (toUpperCase rt (trim s)) (JS ''O'') False),
                   IoToEmit (Str (fullRoomId r0)) (GamePlayerJoined (JS ''X''))])"
    by (cases "lastStartingPlayer r0 = []") (simp_all add: joinRoom_def joinedRoom_def Let_def)
  with s look few new show ?thesis by blast
qed

lemma join_rooms:
  assumes "joinRoom rt sid roomId rs = Inr (rs', out)"
  shows "rs' = rs \<or>
   (\<exists>k0 r0. map_of rs k0 = Some r0 \<and> length (players r0) < 2 \<and> sid \<notin> set (players r0) \<and>
       joinPrecondition rt sid roomId rs \<and> joinKey rt roomId = Some k0 \<and>
       rs' = AList.update k0 (joinedRoom sid r0) rs)"
proof (cases "joinPrecondition rt sid roomId rs")
  case True
  from join_accepted[OF True] assms True show ?thesis
    by (auto simp: joinKey_def)
next
  case False
  show ?thesis
  proof (cases "joinReadable roomId")
    case True
    from join_failure[OF True False] assms show ?thesis by auto
  next
    case False
    then have "truthy roomId" and "\<not> isStr roomId" by (simp_all add: joinReadable_def)
    from join_throws[OF this] assms show ?thesis by simp
  qed
qed

lemma roomOk_joined:
  "roomOk r \<Longrightarrow> length (players r) < 2 \<Longrightarrow> roomOk (joinedRoom sid r)"
  by (auto simp: roomOk_def joinedRoom_def)

lemma registryOk_join:
  assumes ok: "registryOk rs" and j: "joinRoom rt sid roomId rs = Inr (rs', out)"
  shows "registryOk rs'"
  using join_rooms[OF j]
proof
  assume "rs' = rs"
  with ok show ?thesis by simp
next
  assume "\<exists>k0 r0. map_of rs k0 = Some r0 \<and> length (players r0) < 2 \<and> sid \<notin> set (players r0) \<and>
       joinPrecondition rt sid roomId rs \<and> joinKey rt roomId = Some k0 \<and>
       rs' = AList.update k0 (joinedRoom sid r0) rs"
  then obtain k0 r0 where look: "map_of rs k0 = Some r0" and few: "length (players r0) < 2"
    and rs': "rs' = AList.update k0 (joinedRoom sid r0) rs" by blast
  from roomOk_joined[OF registryOk_lookup[OF ok look] few] ok rs' show ?thesis
    by (simp add: registryOk_update)
qed

lemma boardAt_Null:
  "boardAt b i = Null \<Longrightarrow> 0 \<le> i \<and> nat i < length b \<and> b ! nat i = Null"
  by (auto simp: boardAt_def cellAt_def split: if_splits)

lemma boardSet_inside:
  "0 \<le> i \<Longrightarrow> nat i < length b \<Longrightarrow> boardSet b i v = b[nat i := v]"
  by (simp add: boardSet_def)

lemma list_all_update:
  "list_all P xs \<Longrightarrow> P v \<Longrightarrow> list_all P (xs[i := v])"
  using set_update_subset_insert[of xs i v] by (auto simp: list_all_iff)

lemma registryOk_move:
  assumes ok: "registryOk rs" and m: "move sid roomId index symbol rs = (rs', out)"
  shows "registryOk rs'"
proof (cases "findRoom roomId rs")
  case None
  with ok m show ?thesis by (simp add: move_def)
next
  case (Some p)
  obtain k r where p: "p = (k, r)" by (cases p)
  with Some have f: "findRoom roomId rs = Some (k, r)" by simp
  have r: "roomOk r" by (rule registryOk_find[OF ok f])
  show ?thesis
  proof (cases "gameStatus r = Playing \<and> Str (currentPlayer r) = symbol \<and> boardAt (board r) index = Null")
    case False
    with m f have "rs' = rs" by (auto simp: move_def Let_def split: if_splits)
    with ok show ?thesis by simp
  next
    case True
    from True have "boardAt (board r) index = Null" by simp
    from boardAt_Null[OF this] have bs: "boardSet (board r) index symbol = (board r)[nat index := symbol]"
      by (simp add: boardSet_inside)
    from r True have "cellOk symbol" by (auto simp: roomOk_def cellOk_def)
    with r have "list_all cellOk ((board r)[nat index := symbol])"
      by (simp add: roomOk_def list_all_update)
    with r True bs have "roomOk (r\<lparr>board := boardSet (board r) index symbol,
                 currentPlayer := (if symbol = Str (JS ''X'') then JS ''O'' else JS ''X''),
                 gameStatus := (if truthy (checkWinner (boardSet (board r) index symbol))
                                then Finished else gameStatus r)\<rparr>)"
      by (simp add: roomOk_def)
    with ok f m True show ?thesis
      by (auto simp: move_def Let_def intro!: registryOk_mutate)
  qed
qed

lemma registryOk_reset:
  assumes ok: "registryOk rs" and m: "reset sid roomId rs = (rs', out)"
  shows "registryOk rs'"
proof (cases "findRoom roomId rs")
  case None
  with ok m show ?thesis by (simp add: reset_def)
next
  case (Some p)
  obtain k r where p: "p = (k, r)" by (cases p)
  with Some have f: "findRoom roomId rs = Some (k, r)" by simp
  have r: "roomOk r" by (rule registryOk_find[OF ok f])
  then have "roomOk (r\<lparr>lastStartingPlayer := (if lastStartingPlayer r = JS ''X'' then JS ''O'' else JS ''X''),
       board := replicate 9 Null,
       currentPlayer := (if lastStartingPlayer r = JS ''X'' then JS ''O'' else JS ''X''),
       gameStatus := Playing\<rparr>)"
    by (simp add: roomOk_def cellOk_def list_all_iff)
  with ok f m show ?thesis
    by (auto simp: reset_def Let_def intro!: registryOk_mutate)
qed

lemma roomOk_remove_player:
  assumes r: "roomOk r" and ne: "filter (\<lambda>id. id \<noteq> sid) (players r) \<noteq> []"
  shows "roomOk (r\<lparr>players := filter (\<lambda>id. id \<noteq> sid) (players r)\<rparr>)"
proof -
  have le: "length (filter (\<lambda>id. id \<noteq> sid) (players r)) \<le> length (players r)" by simp
  with r have two: "length (filter (\<lambda>id. id \<noteq> sid) (players r)) \<le> 2"
    unfolding roomOk_def by linarith
  have one: "length (filter (\<lambda>id. id \<noteq> sid) (players r)) = 1" if "length (players r) = 1"
    using le ne that by (cases "filter (\<lambda>id. id \<noteq> sid) (players r)") auto
  from r ne two one show ?thesis by (auto simp: roomOk_def)
qed

lemma registryOk_leave:
  assumes ok: "registryOk rs" and m: "leave sid roomId rs = (rs', out)"
  shows "registryOk rs'"
proof (cases "findRoom roomId rs")
  case None
  with ok m show ?thesis by (simp add: leave_def)
next
  case (Some p)
  obtain k r where p: "p = (k, r)" by (cases p)
  with Some have f: "findRoom roomId rs = Some (k, r)" by simp
  have r: "roomOk r" by (rule registryOk_find[OF ok f])
  show ?thesis
  proof (cases "filter (\<lambda>id. id \<noteq> sid) (players r) = []")
    case True
    have sub: "set (AList.delete k (mutateRoom roomId (\<lambda>r'. r'\<lparr>players := []\<rparr>) rs)) \<subseteq> set rs"
      using mutateRoom_set[OF f, of "\<lambda>r'. r'\<lparr>players := []\<rparr>"]
      by (auto simp: AList.delete_eq)
    from m f True have "rs' = AList.delete k (mutateRoom roomId (\<lambda>r'. r'\<lparr>players := []\<rparr>) rs)"
      by (simp add: leave_def Let_def)
    with ok sub show ?thesis
      by (auto simp: registryOk_def AList.distinct_delete mutateRoom_keys)
  next
    case False
    from roomOk_remove_player[OF r False] ok f m False show ?thesis
      by (auto simp: leave_def Let_def intro!: registryOk_mutate)
  qed
qed

lemma disconnect_rooms:
  "fst (disconnect sid rs) =
     map (\<lambda>p. (fst p, if sid \<in> set (players (snd p))
                        then (snd p)\<lparr>players := filter (\<lambda>id. id \<noteq> sid) (players (snd p))\<rparr>
                        else snd p))
       (filter (\<lambda>p. \<not> (sid \<in> set (players (snd p)) \<and>
                         filter (\<lambda>id. id \<noteq> sid) (players (snd p)) = [])) rs)"
  by (induction rs) (auto simp: Let_def split_def)

lemma disconnect_keys:
  "map fst (fst (disconnect sid rs)) =
     map fst (filter (\<lambda>p. \<not> (sid \<in> set (players (snd p)) \<and>
                         filter (\<lambda>id. id \<noteq> sid) (players (snd p)) = [])) rs)"
  by (simp add: disconnect_rooms o_def)

lemma registryOk_disconnect:
  assumes ok: "registryOk rs"
  shows "registryOk (fst (disconnect sid rs))"
proof -
  from ok have "distinct (map fst (fst (disconnect sid rs)))"
    by (simp add: disconnect_keys registryOk_def distinct_map_filter)
  moreover have "roomOk (snd p)" if "p \<in> set (fst (disconnect sid rs))" for p
  proof -
    from that obtain k r where in_rs: "(k, r) \<in> set rs"
      and keep: "\<not> (sid \<in> set (players r) \<and> filter (\<lambda>id. id \<noteq> sid) (players r) = [])"
      and p: "p = (k, if sid \<in> set (players r)
                        then r\<lparr>players := filter (\<lambda>id. id \<noteq> sid) (players r)\<rparr> else r)"
      by (auto simp: disconnect_rooms)
    from ok in_rs have "roomOk r" by (auto simp: registryOk_def)
    with keep p roomOk_remove_player[of r sid] show ?thesis by auto
  qed
  ultimately show ?thesis by (simp add: registryOk_def)
qed

lemma registryOk_handle:
  assumes "registryOk rs" and "handle rt sid req rs = Returns (rs', out)"
  shows "registryOk rs'"
proof (cases req)
  case Disconnect
  with assms registryOk_disconnect[of rs sid] show ?thesis by auto
next
  case (CreateRoom rnd now)
  with assms(2) have "createRoom rt sid rnd now rs = Some (rs', out)"
    by (simp split: option.splits)
  from registryOk_create[OF assms(1) this] show ?thesis .
next
  case (JoinRoom roomId)
  with assms(2) have "joinRoom rt sid roomId rs = Inr (rs', out)"
    by (simp split: sum.splits)
  from registryOk_join[OF assms(1) this] show ?thesis .
qed (use assms in \<open>auto intro: registryOk_move registryOk_reset registryOk_leave\<close>)

lemma reachable_registryOk: "reachable rt rs \<Longrightarrow> registryOk rs"
proof (induction rule: reachable.induct)
  case init
  show ?case by (simp add: registryOk_def)
next
  case (step rs sid req rs' out)
  then show ?case using registryOk_handle by blast
qed

section \<open>A reachable registry to test on\<close>

lemma after_reachable:
  assumes "reachable rt rs" and "registryAfter (handle rt sid req rs) rs = Some rs'"
  shows "reachable rt rs'"
proof (cases "handle rt sid req rs")
  case (Returns res)
  obtain rs1 out where "res = (rs1, out)" by (cases res)
  with Returns assms(2) have "handle rt sid req rs = Returns (rs', out)" by simp
  from reachable.step[OF assms(1) this] show ?thesis .
next
  case (Throws e)
  with assms show ?thesis by simp
next
  case Unfinished
  with assms show ?thesis by simp
qed

lemma after_registryOk:
  assumes "registryOk rs" and "registryAfter (handle rt sid req rs) rs = Some rs'"
  shows "registryOk rs'"
proof (cases "handle rt sid req rs")
  case (Returns res)
  obtain rs1 out where "res = (rs1, out)" by (cases res)
  with Returns assms(2) have "handle rt sid req rs = Returns (rs', out)" by simp
  from registryOk_handle[OF assms(1) this] show ?thesis .
next
  case (Throws e)
  with assms show ?thesis by simp
next
  case Unfinished
  with assms show ?thesis by simp
qed

lemma run_reachable: "reachable rt rs \<Longrightarrow> run rt evs rs = Some rs' \<Longrightarrow> reachable rt rs'"
proof (induction evs arbitrary: rs)
  case Nil
  then show ?case by simp
next
  case (Cons e evs)
  obtain sid req where e: "e = (sid, req)" by (cases e)
  from Cons.prems(2) e obtain rs1 where h: "registryAfter (handle rt sid req rs) rs = Some rs1"
    and r: "run rt evs rs1 = Some rs'"
    by (auto split: option.splits)
  from after_reachable[OF Cons.prems(1) h] have "reachable rt rs1" .
  from Cons.IH[OF this r] show ?case .
qed

lemma run_registryA:
  "run ascii [(''a'', CreateRoom [0, 0, 0, 0, 0, 0] 17), (''b'', JoinRoom (Str (JS '' aaaaaa '')))] [] = Some registryA"
  by code_simp

lemma reachable_registryA: "reachable ascii registryA"
  using run_reachable[OF reachable.init run_registryA] .

section \<open>Moves\<close>

lemma firstLine_truthy: "firstLine b ls = Some w \<Longrightarrow> truthy w"
  by (induction ls) (auto split: if_splits)

lemma checkWinner_truthy: "truthy (checkWinner b) \<longleftrightarrow> checkWinner b \<noteq> Null"
  by (auto simp: checkWinner_def split: option.splits dest: firstLine_truthy)

lemma move_rejected:
  assumes "findRoom roomId rs = Some (k, r)" and "\<not> movePrecondition r index symbol"
  shows "fst (move sid roomId index symbol rs) = rs \<and> errorReplyTo sid (snd (move sid roomId index symbol rs))"
  using assms by (auto simp: move_def movePrecondition_def)

lemma move_accepted:
  assumes "findRoom roomId rs = Some (k, r)" and "movePrecondition r index symbol"
  shows "move sid roomId index symbol rs =
     (mutateRoom roomId (\<lambda>r'. r'\<lparr>board := (board r)[nat index := symbol],
          currentPlayer := opposite (currentPlayer r),
          gameStatus := (if checkWinner ((board r)[nat index := symbol]) \<noteq> Null then Finished else Playing)\<rparr>) rs,
      [IoToEmit roomId (GameMove ((board r)[nat index := symbol]) (opposite (currentPlayer r))
          (checkWinner ((board r)[nat index := symbol])))])"
proof -
  from assms(2) have e: "boardAt (board r) index = Null" by (simp add: movePrecondition_def)
  from boardAt_Null[OF e] have "boardSet (board r) index symbol = (board r)[nat index := symbol]"
    by (simp add: boardSet_inside)
  with assms show ?thesis
    by (simp add: move_def movePrecondition_def Let_def opposite_def checkWinner_truthy)
qed


lemma findRoom_mutated:
  assumes "findRoom roomId rs = Some (k, r)" and "fullRoomId (f r) = fullRoomId r"
  shows "findRoom roomId (mutateRoom roomId f rs) = Some (k, f r)"
  using assms by (induction rs) (auto split: if_splits)




section \<open>The win detector\<close>

lemma cellAt_ok:
  "boardOk b \<Longrightarrow> cellAt b i = Undefined \<or> cellAt b i = Null \<or> cellAt b i = Str (JS ''X'') \<or> cellAt b i = Str (JS ''O'')"
  by (auto simp: boardOk_def cellAt_def list_all_length cellOk_def)

lemma line_match:
  assumes "boardOk b"
  shows "(truthy (cellAt b i) \<and> cellAt b i = cellAt b j \<and> cellAt b i = cellAt b k) =
         (fillsLine (JS ''X'') b (i, j, k) \<or> fillsLine (JS ''O'') b (i, j, k))"
  using cellAt_ok[OF assms, of i] by auto

lemma firstLine_Cons:
  assumes "boardOk b"
  shows "firstLine b (l # ls) =
     (if fillsLine (JS ''X'') b l then Some (Str (JS ''X''))
      else if fillsLine (JS ''O'') b l then Some (Str (JS ''O''))
      else firstLine b ls)"
proof -
  obtain i j k where l: "l = (i, j, k)" by (cases l)
  from cellAt_ok[OF assms, of i] show ?thesis by (auto simp: l)
qed

lemma firstLine_None_iff:
  assumes "boardOk b"
  shows "firstLine b ls = None \<longleftrightarrow> (\<forall>l \<in> set ls. \<not> fillsLine (JS ''X'') b l \<and> \<not> fillsLine (JS ''O'') b l)"
  by (induction ls) (simp_all add: firstLine_Cons[OF assms])

lemma fillsLine_one_mark: "fillsLine (JS ''X'') b l \<Longrightarrow> \<not> fillsLine (JS ''O'') b l"
  by (cases l) auto

lemma firstLine_Some_iff:
  assumes ok: "boardOk b" and m: "m = JS ''X'' \<or> m = JS ''O''"
  shows "firstLine b ls = Some (Str m) \<longleftrightarrow>
         (\<exists>n<length ls. fillsLine m b (ls ! n) \<and>
            (\<forall>n'<n. \<not> fillsLine (JS ''X'') b (ls ! n') \<and> \<not> fillsLine (JS ''O'') b (ls ! n')))"
proof (induction ls)
  case Nil
  show ?case by simp
next
  case (Cons l ls)
  from m show ?case
  proof
    assume "m = JS ''X''"
    with Cons.IH fillsLine_one_mark[of b l] show ?thesis
      by (auto simp: firstLine_Cons[OF ok] Ex_less_Suc2 All_less_Suc2)
  next
    assume "m = JS ''O''"
    with Cons.IH fillsLine_one_mark[of b l] show ?thesis
      by (auto simp: firstLine_Cons[OF ok] Ex_less_Suc2 All_less_Suc2)
  qed
qed

lemma firstLine_range:
  assumes ok: "boardOk b"
  shows "firstLine b ls = Some w \<Longrightarrow> w = Str (JS ''X'') \<or> w = Str (JS ''O'')"
  by (induction ls) (auto simp: firstLine_Cons[OF ok] split: if_splits)

lemma fillsFirst_firstLine:
  assumes "boardOk b" and "m = JS ''X'' \<or> m = JS ''O''"
  shows "fillsFirst m b \<longleftrightarrow> firstLine b lines = Some (Str m)"
  unfolding firstLine_Some_iff[OF assms] fillsFirst_def by auto

lemma fills_firstLine:
  assumes "boardOk b"
  shows "\<not> fills (JS ''X'') b \<and> \<not> fills (JS ''O'') b \<longleftrightarrow> firstLine b lines = None"
  unfolding firstLine_None_iff[OF assms] fills_def list_ex_iff by auto


text \<open>
  Claim C3, as it is stated, asks that on every 9-cell board \<open>checkWinner\<close> returns
  a mark if and only if that mark fills one of the eight triples.  On the board whose
  top row is X and whose middle row is O, the mark O fills a triple and
  \<open>checkWinner\<close> returns X: the loop returns at the first triple that matches.
\<close>

theorem checkWinner_two_lines_counterexample:
  "boardOk [Str (JS ''X''), Str (JS ''X''), Str (JS ''X''), Str (JS ''O''), Str (JS ''O''), Str (JS ''O''), Null, Null, Null] \<and>
   fills (JS ''O'') [Str (JS ''X''), Str (JS ''X''), Str (JS ''X''), Str (JS ''O''), Str (JS ''O''), Str (JS ''O''), Null, Null, Null] \<and>
   checkWinner [Str (JS ''X''), Str (JS ''X''), Str (JS ''X''), Str (JS ''O''), Str (JS ''O''), Str (JS ''O''), Null, Null, Null]
     = Str (JS ''X'')"
  by code_simp

text \<open>
  Claim C3, amended.  For every 9-cell board \<open>checkWinner\<close> returns exactly one of
  null, X, O and draw.  It returns a mark if and only if that mark fills the first
  triple, in the fixed order of the 3 rows, 3 columns and 2 diagonals, that holds three
  equal non-empty cells; so a mark it returns fills a triple, and a mark that fills a
  triple is returned whenever the other mark fills none.  It returns draw if and only
  if no triple matched and every cell is filled, and null if and only if no triple
  matched and some cell is empty.
\<close>

theorem checkWinner_outcome:
  assumes ok: "boardOk b"
  shows "(checkWinner b = Null \<or> checkWinner b = Str (JS ''X'') \<or> checkWinner b = Str (JS ''O'') \<or>
          checkWinner b = Str (JS ''draw'')) \<and>
         (checkWinner b = Str (JS ''X'') \<longleftrightarrow> fillsFirst (JS ''X'') b) \<and>
         (checkWinner b = Str (JS ''O'') \<longleftrightarrow> fillsFirst (JS ''O'') b) \<and>
         (fillsFirst (JS ''X'') b \<longrightarrow> fills (JS ''X'') b) \<and>
         (fillsFirst (JS ''O'') b \<longrightarrow> fills (JS ''O'') b) \<and>
         (fills (JS ''X'') b \<and> \<not> fills (JS ''O'') b \<longrightarrow> checkWinner b = Str (JS ''X'')) \<and>
         (fills (JS ''O'') b \<and> \<not> fills (JS ''X'') b \<longrightarrow> checkWinner b = Str (JS ''O'')) \<and>
         (checkWinner b = Str (JS ''draw'') \<longleftrightarrow> \<not> fills (JS ''X'') b \<and> \<not> fills (JS ''O'') b \<and> full b) \<and>
         (checkWinner b = Null \<longleftrightarrow> \<not> fills (JS ''X'') b \<and> \<not> fills (JS ''O'') b \<and> \<not> full b)"
proof -
  have X: "fillsFirst (JS ''X'') b \<longleftrightarrow> firstLine b lines = Some (Str (JS ''X''))"
    by (rule fillsFirst_firstLine[OF ok]) simp
  have O: "fillsFirst (JS ''O'') b \<longleftrightarrow> firstLine b lines = Some (Str (JS ''O''))"
    by (rule fillsFirst_firstLine[OF ok]) simp
  have N: "\<not> fills (JS ''X'') b \<and> \<not> fills (JS ''O'') b \<longleftrightarrow> firstLine b lines = None"
    by (rule fills_firstLine[OF ok])
  have sub: "fillsFirst m b \<Longrightarrow> fills m b" for m
    by (auto simp: fillsFirst_def fills_def list_ex_iff)
  consider (none) "firstLine b lines = None" | (x) "firstLine b lines = Some (Str (JS ''X''))"
    | (o) "firstLine b lines = Some (Str (JS ''O''))"
    using firstLine_range[OF ok, of lines] by (cases "firstLine b lines") auto
  then show ?thesis
  proof cases
    case none
    with X O N sub show ?thesis by (auto simp: checkWinner_def full_def)
  next
    case x
    with X O N sub[of "(JS ''X'')"] show ?thesis by (auto simp: checkWinner_def)
  next
    case o
    with X O N sub[of "(JS ''O'')"] show ?thesis by (auto simp: checkWinner_def)
  qed
qed

theorem checkWinner_outcome_witness:
  "boardOk [Str (JS ''X''), Str (JS ''X''), Str (JS ''X''), Null, Str (JS ''O''), Str (JS ''O''), Null, Null, Null] \<and>
   checkWinner [Str (JS ''X''), Str (JS ''X''), Str (JS ''X''), Null, Str (JS ''O''), Str (JS ''O''), Null, Null, Null] = Str (JS ''X'') \<and>
   fillsFirst (JS ''X'') [Str (JS ''X''), Str (JS ''X''), Str (JS ''X''), Null, Str (JS ''O''), Str (JS ''O''), Null, Null, Null] \<and>
   fills (JS ''X'') [Str (JS ''X''), Str (JS ''X''), Str (JS ''X''), Null, Str (JS ''O''), Str (JS ''O''), Null, Null, Null] \<and>
   \<not> fillsFirst (JS ''O'') [Str (JS ''X''), Str (JS ''X''), Str (JS ''X''), Null, Str (JS ''O''), Str (JS ''O''), Null, Null, Null]"
proof -
  have ok: "boardOk [Str (JS ''X''), Str (JS ''X''), Str (JS ''X''), Null, Str (JS ''O''), Str (JS ''O''), Null, Null, Null]"
    by code_simp
  have w: "checkWinner [Str (JS ''X''), Str (JS ''X''), Str (JS ''X''), Null, Str (JS ''O''), Str (JS ''O''), Null, Null, Null] = Str (JS ''X'')"
    by code_simp
  from checkWinner_outcome[OF ok] w ok show ?thesis by simp
qed

section \<open>Reset\<close>

lemma opposite_differs: "opposite s \<noteq> s"
  by (simp add: opposite_def)

lemma opposite_twice: "s = JS ''X'' \<or> s = JS ''O'' \<Longrightarrow> opposite (opposite s) = s"
  by (auto simp: opposite_def)

lemma reset_found:
  assumes "findRoom roomId rs = Some (k, r)"
  shows "reset sid roomId rs =
     (mutateRoom roomId (\<lambda>r'. r'\<lparr>lastStartingPlayer := opposite (lastStartingPlayer r),
          board := replicate 9 Null, currentPlayer := opposite (lastStartingPlayer r),
          gameStatus := Playing\<rparr>) rs,
      [IoToEmit roomId (GameMove (replicate 9 Null) (opposite (lastStartingPlayer r)) Null)])"
  using assms by (simp add: reset_def Let_def opposite_def)

lemma reset_finds:
  assumes "findRoom roomId rs = Some (k, r)"
  shows "findRoom roomId (fst (reset sid roomId rs)) =
     Some (k, r\<lparr>lastStartingPlayer := opposite (lastStartingPlayer r),
          board := replicate 9 Null, currentPlayer := opposite (lastStartingPlayer r),
          gameStatus := Playing\<rparr>)"
  by (simp add: reset_found[OF assms] findRoom_mutated[OF assms])

text \<open>
  Claim C5.  For a room found by its internal id, a reset clears all nine cells, sets
  the status to playing, flips lastStartingPlayer relative to its value before the
  reset and sets currentPlayer to the new lastStartingPlayer; it broadcasts the cleared
  board, the new currentPlayer and the outcome null to the room.  Two resets in a row
  give lastStartingPlayer its original value back.
\<close>

theorem reset_clears_and_flips:
  assumes reach: "reachable rt rs" and found: "findRoom roomId rs = Some (k, r)"
  shows "reset sid roomId rs =
           (mutateRoom roomId (\<lambda>r'. r'\<lparr>lastStartingPlayer := opposite (lastStartingPlayer r),
              board := replicate 9 Null, currentPlayer := opposite (lastStartingPlayer r),
              gameStatus := Playing\<rparr>) rs,
            [IoToEmit roomId (GameMove (replicate 9 Null) (opposite (lastStartingPlayer r)) Null)]) \<and>
         findRoom roomId (fst (reset sid roomId rs)) =
           Some (k, r\<lparr>lastStartingPlayer := opposite (lastStartingPlayer r),
                      board := replicate 9 Null, currentPlayer := opposite (lastStartingPlayer r),
                      gameStatus := Playing\<rparr>) \<and>
         opposite (lastStartingPlayer r) \<noteq> lastStartingPlayer r \<and>
         findRoom roomId (fst (reset sid' roomId (fst (reset sid roomId rs)))) =
           Some (k, r\<lparr>lastStartingPlayer := lastStartingPlayer r,
                      board := replicate 9 Null, currentPlayer := lastStartingPlayer r,
                      gameStatus := Playing\<rparr>)"
proof -
  from registryOk_find[OF reachable_registryOk[OF reach] found]
  have "lastStartingPlayer r = JS ''X'' \<or> lastStartingPlayer r = JS ''O''"
    by (simp add: roomOk_def)
  then have twice: "opposite (opposite (lastStartingPlayer r)) = lastStartingPlayer r"
    by (rule opposite_twice)
  note first = reset_finds[OF found, of sid]
  from reset_finds[OF first, of sid'] twice
  have "findRoom roomId (fst (reset sid' roomId (fst (reset sid roomId rs)))) =
           Some (k, r\<lparr>lastStartingPlayer := lastStartingPlayer r,
                      board := replicate 9 Null, currentPlayer := lastStartingPlayer r,
                      gameStatus := Playing\<rparr>)"
    by simp
  with first reset_found[OF found, of sid] opposite_differs show ?thesis by blast
qed

theorem reset_clears_and_flips_witness:
  "reachable ascii registryA \<and>
   findRoom (Str (JS ''room-17-aaaaaa'')) registryA = Some (JS ''AAAAAA'', roomA) \<and>
   findRoom (Str (JS ''room-17-aaaaaa'')) (fst (reset ''a'' (Str (JS ''room-17-aaaaaa'')) registryA)) =
     Some (JS ''AAAAAA'', roomA\<lparr>lastStartingPlayer := opposite (lastStartingPlayer roomA),
                      board := replicate 9 Null, currentPlayer := opposite (lastStartingPlayer roomA),
                      gameStatus := Playing\<rparr>) \<and>
   opposite (lastStartingPlayer roomA) = JS ''O'' \<and>
   findRoom (Str (JS ''room-17-aaaaaa''))
       (fst (reset ''b'' (Str (JS ''room-17-aaaaaa'')) (fst (reset ''a'' (Str (JS ''room-17-aaaaaa'')) registryA)))) =
     Some (JS ''AAAAAA'', roomA\<lparr>lastStartingPlayer := lastStartingPlayer roomA,
                      board := replicate 9 Null, currentPlayer := lastStartingPlayer roomA,
                      gameStatus := Playing\<rparr>)"
proof -
  have found: "findRoom (Str (JS ''room-17-aaaaaa'')) registryA = Some (JS ''AAAAAA'', roomA)"
    by code_simp
  have O: "opposite (lastStartingPlayer roomA) = JS ''O''"
    by code_simp
  from reset_clears_and_flips[OF reachable_registryA found, of "''a''" "''b''"]
    O found reachable_registryA
  show ?thesis by blast
qed

section \<open>The sender of a move or a reset\<close>

text \<open>
  Claim C9.  What a move or a reset does to the registry, and what it broadcasts, does
  not depend on who sent it: for any two senders the same request gives the same
  registry and the same broadcast.  Whether the sender is a player of the room is
  never looked at; only the address of an error reply names the sender.
\<close>

theorem move_reset_ignore_sender:
  "fst (move sid1 roomId index symbol rs) = fst (move sid2 roomId index symbol rs) \<and>
   broadcasts (snd (move sid1 roomId index symbol rs)) = broadcasts (snd (move sid2 roomId index symbol rs)) \<and>
   fst (reset sid1 roomId rs) = fst (reset sid2 roomId rs) \<and>
   broadcasts (snd (reset sid1 roomId rs)) = broadcasts (snd (reset sid2 roomId rs))"
  by (simp add: move_def reset_def broadcasts_def Let_def split: option.splits)

theorem move_reset_ignore_sender_witness:
  "''c'' \<notin> set (players roomA) \<and>
   stateBroadcastTo (Str (JS ''room-17-aaaaaa'')) (snd (move ''a'' (Str (JS ''room-17-aaaaaa'')) 4 (Str (JS ''X'')) registryA)) \<and>
   fst (move ''c'' (Str (JS ''room-17-aaaaaa'')) 4 (Str (JS ''X'')) registryA) =
     fst (move ''a'' (Str (JS ''room-17-aaaaaa'')) 4 (Str (JS ''X'')) registryA) \<and>
   broadcasts (snd (move ''c'' (Str (JS ''room-17-aaaaaa'')) 4 (Str (JS ''X'')) registryA)) =
     broadcasts (snd (move ''a'' (Str (JS ''room-17-aaaaaa'')) 4 (Str (JS ''X'')) registryA))"
proof -
  have c: "''c'' \<notin> set (players roomA)" by code_simp
  have a: "stateBroadcastTo (Str (JS ''room-17-aaaaaa''))
      (snd (move ''a'' (Str (JS ''room-17-aaaaaa'')) 4 (Str (JS ''X'')) registryA))"
    by code_simp
  from move_reset_ignore_sender[of "''c''" "Str (JS ''room-17-aaaaaa'')" 4 "Str (JS ''X'')" registryA "''a''"] c a
  show ?thesis by blast
qed

section \<open>Moves outside the board\<close>





section \<open>Failed preconditions\<close>






text \<open>
  Outside the amended claim: a join whose room identifier is truthy and no string, and
  any of the four destructuring listeners called with no payload, end in a
  \<open>TypeError\<close>, with no reply and no change.
\<close>

lemma unreadable_requests_throw:
  "handle rt sid (JoinRoom (Num 123)) rs = Throws TypeError \<and>
   handle rt sid (JoinRoom (Bool True)) rs = Throws TypeError \<and>
   handle rt sid (JoinRoom Object) rs = Throws TypeError \<and>
   handle rt sid (NoPayload l) rs = Throws TypeError"
  by (simp add: joinRoom_def)

section \<open>What one request does to one room\<close>

lemma create_rooms:
  assumes "createRoom rt sid rnd now rs = Some (rs', out)"
  shows "\<exists>k0 fid. map_of rs k0 = None \<and> rs' = AList.update k0 (newRoom sid fid) rs"
proof -
  from assms obtain k0 where pick: "pickRoomId rs rnd = Some k0"
    and rs': "rs' = AList.update k0
        (newRoom sid (JS ''room-'' @ JS (showNat now) @ JS ''-'' @ toLowerCase rt k0)) rs"
    by (auto simp: createRoom_def Let_def split: option.splits)
  from pickRoomId_fresh[OF pick] have "map_of rs k0 = None" by (simp add: has_def)
  with rs' show ?thesis by blast
qed

lemma move_rooms:
  assumes "distinct (map fst rs)"
  shows "map_of (fst (move sid roomId index symbol rs)) =
     (case findRoom roomId rs of
        None \<Rightarrow> map_of rs
      | Some (k0, r0) \<Rightarrow>
          if movePrecondition r0 index symbol then (map_of rs)(k0 \<mapsto> movedRoom index symbol r0)
          else map_of rs)"
proof (cases "findRoom roomId rs")
  case None
  then show ?thesis by (simp add: move_def)
next
  case (Some p)
  obtain k0 r0 where p: "p = (k0, r0)" by (cases p)
  with Some have found: "findRoom roomId rs = Some (k0, r0)" by simp
  show ?thesis
  proof (cases "movePrecondition r0 index symbol")
    case True
    from move_accepted[OF found True, of sid] mutateRoom_map_of[OF assms found] found True
    show ?thesis by (simp add: movedRoom_def)
  next
    case False
    from move_rejected[OF found False, of sid] found False show ?thesis by simp
  qed
qed

lemma reset_rooms:
  assumes "distinct (map fst rs)"
  shows "map_of (fst (reset sid roomId rs)) =
     (case findRoom roomId rs of
        None \<Rightarrow> map_of rs
      | Some (k0, r0) \<Rightarrow> (map_of rs)(k0 \<mapsto> resetRoom r0))"
proof (cases "findRoom roomId rs")
  case None
  then show ?thesis by (simp add: reset_def)
next
  case (Some p)
  obtain k0 r0 where p: "p = (k0, r0)" by (cases p)
  with Some have found: "findRoom roomId rs = Some (k0, r0)" by simp
  from reset_found[OF found, of sid] mutateRoom_map_of[OF assms found] found
  show ?thesis by (simp add: resetRoom_def)
qed

lemma leave_rooms:
  assumes "distinct (map fst rs)"
  shows "map_of (fst (leave sid roomId rs)) =
     (case findRoom roomId rs of
        None \<Rightarrow> map_of rs
      | Some (k0, r0) \<Rightarrow>
          if filter (\<lambda>id. id \<noteq> sid) (players r0) = [] then (map_of rs)(k0 := None)
          else (map_of rs)(k0 \<mapsto> withoutPlayer sid r0))"
proof (cases "findRoom roomId rs")
  case None
  then show ?thesis by (simp add: leave_def)
next
  case (Some p)
  obtain k0 r0 where p: "p = (k0, r0)" by (cases p)
  with Some have found: "findRoom roomId rs = Some (k0, r0)" by simp
  from mutateRoom_map_of[OF assms found] found
  show ?thesis by (simp add: leave_def Let_def withoutPlayer_def AList.delete_conv')
qed

lemma map_of_map_filter:
  assumes "distinct (map fst rs)"
  shows "map_of (map (\<lambda>p. (fst p, h (snd p))) (filter P rs)) k =
     (case map_of rs k of None \<Rightarrow> None | Some r \<Rightarrow> if P (k, r) then Some (h r) else None)"
  using assms
proof (induction rs)
  case Nil
  show ?case by simp
next
  case (Cons p rs)
  obtain k0 r0 where p: "p = (k0, r0)" by (cases p)
  from Cons.prems p have fresh: "map_of rs k0 = None" and d: "distinct (map fst rs)"
    by (auto simp: map_of_eq_None_iff)
  from Cons.IH[OF d] fresh show ?case
    by (auto simp: p split: option.splits)
qed

lemma disconnect_lookup:
  assumes "distinct (map fst rs)"
  shows "map_of (fst (disconnect sid rs)) k =
     (case map_of rs k of
        None \<Rightarrow> None
      | Some r \<Rightarrow>
          if sid \<in> set (players r)
          then (if filter (\<lambda>id. id \<noteq> sid) (players r) = [] then None
                else Some (withoutPlayer sid r))
          else Some r)"
proof -
  let ?h = "\<lambda>r. if sid \<in> set (players r) then r\<lparr>players := filter (\<lambda>id. id \<noteq> sid) (players r)\<rparr> else r"
  let ?P = "\<lambda>p. \<not> (sid \<in> set (players (snd p)) \<and> filter (\<lambda>id. id \<noteq> sid) (players (snd p)) = [])"
  have "fst (disconnect sid rs) = map (\<lambda>p. (fst p, ?h (snd p))) (filter ?P rs)"
    by (rule disconnect_rooms)
  then have "map_of (fst (disconnect sid rs)) k =
     (case map_of rs k of None \<Rightarrow> None | Some r \<Rightarrow> if ?P (k, r) then Some (?h r) else None)"
    by (simp only: map_of_map_filter[OF assms, of ?h ?P k])
  then show ?thesis
    by (auto simp: withoutPlayer_def split: option.splits)
qed


lemma addresses_lookup:
  assumes "distinct (map fst rs)" and "map_of rs k = Some r"
  shows "addresses roomId rs k \<longleftrightarrow> findRoom roomId rs = Some (k, r)"
proof
  assume "addresses roomId rs k"
  then obtain r0 where f: "findRoom roomId rs = Some (k, r0)"
    by (auto simp: addresses_def split: option.splits)
  from findRoom_map_of[OF assms(1) f] assms(2) f show "findRoom roomId rs = Some (k, r)" by simp
next
  assume "findRoom roomId rs = Some (k, r)"
  then show "addresses roomId rs k" by (simp add: addresses_def)
qed

lemma not_addressed:
  assumes "distinct (map fst rs)" and "findRoom roomId rs = Some (k0, r0)" and "\<not> addresses roomId rs k"
  shows "k \<noteq> k0"
  using assms by (auto simp: addresses_def)

lemma withoutPlayer_absent: "sid \<notin> set (players r) \<Longrightarrow> withoutPlayer sid r = r"
proof -
  assume "sid \<notin> set (players r)"
  then have "filter (\<lambda>id. id \<noteq> sid) (players r) = players r"
    by (induction "players r") (auto simp: filter_id_conv)
  then show ?thesis by (simp add: withoutPlayer_def)
qed

lemma handle_lookup:
  assumes ok: "registryOk rs" and h: "handle rt sid req rs = Returns (rs', out)"
    and look: "map_of rs k = Some r"
  shows "case req of
      CreateRoom rnd now \<Rightarrow> map_of rs' k = Some r
    | JoinRoom roomId \<Rightarrow>
        map_of rs' k = Some r \<or>
        (length (players r) < 2 \<and> sid \<notin> set (players r) \<and> map_of rs' k = Some (joinedRoom sid r))
    | Move roomId index symbol \<Rightarrow>
        map_of rs' k =
          (if addresses roomId rs k \<and> movePrecondition r index symbol
           then Some (movedRoom index symbol r) else Some r)
    | Reset roomId \<Rightarrow>
        map_of rs' k = (if addresses roomId rs k then Some (resetRoom r) else Some r)
    | Leave roomId \<Rightarrow>
        map_of rs' k =
          (if addresses roomId rs k
           then (if filter (\<lambda>id. id \<noteq> sid) (players r) = [] then None
                 else Some (withoutPlayer sid r))
           else Some r)
    | Disconnect \<Rightarrow>
        map_of rs' k =
          (if filter (\<lambda>id. id \<noteq> sid) (players r) = [] then None
           else Some (withoutPlayer sid r))
    | NoPayload l \<Rightarrow> False"
proof -
  from ok have d: "distinct (map fst rs)" by (simp add: registryOk_def)
  note addr = addresses_lookup[OF d look]
  show ?thesis
  proof (cases req)
    case (CreateRoom rnd now)
    with h have "createRoom rt sid rnd now rs = Some (rs', out)" by (simp split: option.splits)
    from create_rooms[OF this] obtain k0 fid where "map_of rs k0 = None"
      and "rs' = AList.update k0 (newRoom sid fid) rs" by blast
    with look have "map_of rs' k = Some r" by (auto simp: AList.update_conv')
    with CreateRoom show ?thesis by simp
  next
    case (JoinRoom roomId)
    with h have j: "joinRoom rt sid roomId rs = Inr (rs', out)" by (simp split: sum.splits)
    have "map_of rs' k = Some r \<or>
        (length (players r) < 2 \<and> sid \<notin> set (players r) \<and> map_of rs' k = Some (joinedRoom sid r))"
      using join_rooms[OF j]
    proof
      assume "rs' = rs"
      with look show ?thesis by simp
    next
      assume "\<exists>k0 r0. map_of rs k0 = Some r0 \<and> length (players r0) < 2 \<and> sid \<notin> set (players r0) \<and>
         joinPrecondition rt sid roomId rs \<and> joinKey rt roomId = Some k0 \<and>
         rs' = AList.update k0 (joinedRoom sid r0) rs"
      then obtain k0 r0 where l0: "map_of rs k0 = Some r0" and few: "length (players r0) < 2"
        and new: "sid \<notin> set (players r0)"
        and upd: "rs' = AList.update k0 (joinedRoom sid r0) rs"
        by blast
      show ?thesis
      proof (cases "k = k0")
        case True
        with l0 look have "r0 = r" by simp
        with True few new upd show ?thesis by (simp add: AList.update_conv')
      next
        case False
        with look upd show ?thesis by (simp add: AList.update_conv')
      qed
    qed
    with JoinRoom show ?thesis by simp
  next
    case (Move roomId index symbol)
    with h have rs': "rs' = fst (move sid roomId index symbol rs)" by auto
    have "map_of rs' k =
          (if addresses roomId rs k \<and> movePrecondition r index symbol
           then Some (movedRoom index symbol r) else Some r)"
    proof (cases "findRoom roomId rs")
      case None
      with look show ?thesis by (simp add: rs' move_rooms[OF d] addresses_def)
    next
      case (Some p)
      obtain k0 r0 where "p = (k0, r0)" by (cases p)
      with Some have f: "findRoom roomId rs = Some (k0, r0)" by simp
      show ?thesis
      proof (cases "addresses roomId rs k")
        case True
        with addr f look show ?thesis by (simp add: rs' move_rooms[OF d])
      next
        case False
        from not_addressed[OF d f False] f look False show ?thesis
          by (simp add: rs' move_rooms[OF d])
      qed
    qed
    with Move show ?thesis by simp
  next
    case (Reset roomId)
    with h have rs': "rs' = fst (reset sid roomId rs)" by auto
    have "map_of rs' k = (if addresses roomId rs k then Some (resetRoom r) else Some r)"
    proof (cases "findRoom roomId rs")
      case None
      with look show ?thesis by (simp add: rs' reset_rooms[OF d] addresses_def)
    next
      case (Some p)
      obtain k0 r0 where "p = (k0, r0)" by (cases p)
      with Some have f: "findRoom roomId rs = Some (k0, r0)" by simp
      show ?thesis
      proof (cases "addresses roomId rs k")
        case True
        with addr f look show ?thesis by (simp add: rs' reset_rooms[OF d])
      next
        case False
        from not_addressed[OF d f False] f look False show ?thesis
          by (simp add: rs' reset_rooms[OF d])
      qed
    qed
    with Reset show ?thesis by simp
  next
    case (Leave roomId)
    with h have rs': "rs' = fst (leave sid roomId rs)" by auto
    have "map_of rs' k =
          (if addresses roomId rs k
           then (if filter (\<lambda>id. id \<noteq> sid) (players r) = [] then None
                 else Some (withoutPlayer sid r))
           else Some r)"
    proof (cases "findRoom roomId rs")
      case None
      with look show ?thesis by (simp add: rs' leave_rooms[OF d] addresses_def)
    next
      case (Some p)
      obtain k0 r0 where "p = (k0, r0)" by (cases p)
      with Some have f: "findRoom roomId rs = Some (k0, r0)" by simp
      show ?thesis
      proof (cases "addresses roomId rs k")
        case True
        with addr f look show ?thesis by (simp add: rs' leave_rooms[OF d])
      next
        case False
        from not_addressed[OF d f False] f look False show ?thesis
          by (simp add: rs' leave_rooms[OF d])
      qed
    qed
    with Leave show ?thesis by simp
  next
    case Disconnect
    with h have rs': "rs' = fst (disconnect sid rs)" by auto
    from registryOk_lookup[OF ok look] have ne: "players r \<noteq> []" by (simp add: roomOk_def)
    have "map_of rs' k =
          (if filter (\<lambda>id. id \<noteq> sid) (players r) = [] then None
           else Some (withoutPlayer sid r))"
    proof (cases "sid \<in> set (players r)")
      case True
      with look show ?thesis by (simp add: rs' disconnect_lookup[OF d])
    next
      case False
      from withoutPlayer_absent[OF False] have same: "withoutPlayer sid r = r" .
      then have "filter (\<lambda>id. id \<noteq> sid) (players r) = players r"
        by (simp add: withoutPlayer_def) (metis room.select_convs(1) room.surjective room.update_convs(1))
      with ne same False look show ?thesis by (simp add: rs' disconnect_lookup[OF d])
    qed
    with Disconnect show ?thesis by simp
  next
    case (NoPayload l)
    with h show ?thesis by simp
  qed
qed

lemma reachable_registryW: "reachable ascii registryW"
proof -
  have "run ascii [(''a'', CreateRoom [0, 0, 0, 0, 0, 0] 17)] [] = Some registryW"
    by code_simp
  from run_reachable[OF reachable.init this] show ?thesis .
qed

lemma reachable_registryX: "reachable ascii registryX"
proof -
  have "handle ascii ''a'' (Move (Str (JS ''room-17-aaaaaa'')) 4 (Str (JS ''X''))) registryA =
     Returns (registryX,
           [IoToEmit (Str (JS ''room-17-aaaaaa'')) (GameMove ((replicate 9 Null)[4 := Str (JS ''X'')]) (JS ''O'') Null)])"
    by code_simp
  from reachable.step[OF reachable_registryA this] show ?thesis .
qed

lemma handle_fresh:
  assumes d: "distinct (map fst rs)" and h: "handle rt sid req rs = Returns (rs', out)"
    and none: "map_of rs k = None"
  shows "map_of rs' k = None \<or>
         (\<exists>rnd now fid. req = CreateRoom rnd now \<and> map_of rs' k = Some (newRoom sid fid))"
proof (cases req)
  case (CreateRoom rnd now)
  with h have "createRoom rt sid rnd now rs = Some (rs', out)" by (simp split: option.splits)
  from create_rooms[OF this] obtain k0 fid where
    "rs' = AList.update k0 (newRoom sid fid) rs" by blast
  with none CreateRoom show ?thesis by (auto simp: AList.update_conv')
next
  case (JoinRoom roomId)
  with h have j: "joinRoom rt sid roomId rs = Inr (rs', out)" by (simp split: sum.splits)
  from join_rooms[OF j] none show ?thesis
    by (auto simp: AList.update_conv' split: if_splits)
next
  case (Move roomId index symbol)
  with h have rs': "rs' = fst (move sid roomId index symbol rs)" by auto
  from none findRoom_map_of[OF d] show ?thesis
    by (auto simp: rs' move_rooms[OF d] split: option.splits)
next
  case (Reset roomId)
  with h have rs': "rs' = fst (reset sid roomId rs)" by auto
  from none findRoom_map_of[OF d] show ?thesis
    by (auto simp: rs' reset_rooms[OF d] split: option.splits)
next
  case (Leave roomId)
  with h have rs': "rs' = fst (leave sid roomId rs)" by auto
  from none findRoom_map_of[OF d] show ?thesis
    by (auto simp: rs' leave_rooms[OF d] split: option.splits)
next
  case Disconnect
  with h have rs': "rs' = fst (disconnect sid rs)" by auto
  from none show ?thesis by (simp add: rs' disconnect_lookup[OF d])
next
  case (NoPayload l)
  with h show ?thesis by simp
qed

section \<open>Removal of rooms\<close>

text \<open>
  Claim C6.  A room is removed from the registry exactly when its player count goes to
  zero through a leave request or a disconnect: for a room registered under a key
  before a request is handled, the key is unregistered afterwards if and only if the
  request is a disconnect, or a leave whose internal id finds this room, and filtering
  the sender out of the players leaves nobody.  No registered room of a reachable
  registry has zero players, before or after the request, and a leave or disconnect
  that leaves at least one player keeps the room registered, with the remaining
  players.
\<close>

theorem room_removed_iff_emptied:
  assumes reach: "reachable rt rs" and h: "handle rt sid req rs = Returns (rs', out)"
    and look: "map_of rs k = Some r"
  shows "players r \<noteq> [] \<and>
         (map_of rs' k = None \<longleftrightarrow>
            removesSenderFrom req rs k \<and> filter (\<lambda>id. id \<noteq> sid) (players r) = []) \<and>
         (removesSenderFrom req rs k \<and> filter (\<lambda>id. id \<noteq> sid) (players r) \<noteq> [] \<longrightarrow>
            map_of rs' k = Some (withoutPlayer sid r)) \<and>
         (\<forall>p \<in> set rs'. players (snd p) \<noteq> [])"
proof -
  note ok = reachable_registryOk[OF reach]
  from registryOk_lookup[OF ok look] have ne: "players r \<noteq> []" by (simp add: roomOk_def)
  from registryOk_handle[OF ok h] have all: "\<forall>p \<in> set rs'. players (snd p) \<noteq> []"
    by (simp add: registryOk_def roomOk_def)
  from handle_lookup[OF ok h look]
  have "(map_of rs' k = None \<longleftrightarrow>
            removesSenderFrom req rs k \<and> filter (\<lambda>id. id \<noteq> sid) (players r) = []) \<and>
         (removesSenderFrom req rs k \<and> filter (\<lambda>id. id \<noteq> sid) (players r) \<noteq> [] \<longrightarrow>
            map_of rs' k = Some (withoutPlayer sid r))"
    by (cases req) auto
  with ne all show ?thesis by simp
qed


theorem room_removed_iff_emptied_witness:
  "reachable ascii registryW \<and>
   handle ascii ''a'' (Leave (Str (JS ''room-17-aaaaaa''))) registryW =
     Returns ([], [SocketEmit ''a'' GameLeft, SocketLeave ''a'' (Str (JS ''room-17-aaaaaa''))]) \<and>
   map_of registryW (JS ''AAAAAA'') = Some (newRoom ''a'' (JS ''room-17-aaaaaa'')) \<and>
   removesSenderFrom (Leave (Str (JS ''room-17-aaaaaa''))) registryW (JS ''AAAAAA'') \<and>
   filter (\<lambda>id. id \<noteq> ''a'') (players (newRoom ''a'' (JS ''room-17-aaaaaa''))) = [] \<and>
   map_of [] (JS ''AAAAAA'') = (None :: room option) \<and>
   players (newRoom ''a'' (JS ''room-17-aaaaaa'')) \<noteq> []"
proof -
  have h: "handle ascii ''a'' (Leave (Str (JS ''room-17-aaaaaa''))) registryW =
     Returns ([], [SocketEmit ''a'' GameLeft, SocketLeave ''a'' (Str (JS ''room-17-aaaaaa''))])"
    by code_simp
  have look: "map_of registryW (JS ''AAAAAA'') = Some (newRoom ''a'' (JS ''room-17-aaaaaa''))"
    by code_simp
  have rem: "removesSenderFrom (Leave (Str (JS ''room-17-aaaaaa''))) registryW (JS ''AAAAAA'')"
    by code_simp
  have emp: "filter (\<lambda>id. id \<noteq> ''a'') (players (newRoom ''a'' (JS ''room-17-aaaaaa''))) = []"
    by code_simp
  from room_removed_iff_emptied[OF reachable_registryW h look] rem emp h look reachable_registryW
  show ?thesis by blast
qed

section \<open>Filled cells\<close>

text \<open>
  Claim C8, as it is stated, has no operation ever change a non-empty board cell.  A
  reset replaces the board by nine empty cells: after X has played the centre, a reset
  turns that cell from X to empty.
\<close>

theorem reset_overwrites_counterexample:
  "reachable ascii registryX \<and>
   board roomX ! 4 = Str (JS ''X'') \<and>
   handle ascii ''b'' (Reset (Str (JS ''room-17-aaaaaa''))) registryX =
     Returns ([(JS ''AAAAAA'', resetRoom roomX)],
           [IoToEmit (Str (JS ''room-17-aaaaaa'')) (GameMove (replicate 9 Null) (JS ''O'') Null)]) \<and>
   board (resetRoom roomX) ! 4 = Null"
proof -
  have "board roomX ! 4 = Str (JS ''X'')"
    by code_simp
  moreover have "handle ascii ''b'' (Reset (Str (JS ''room-17-aaaaaa''))) registryX =
     Returns ([(JS ''AAAAAA'', resetRoom roomX)],
           [IoToEmit (Str (JS ''room-17-aaaaaa'')) (GameMove (replicate 9 Null) (JS ''O'') Null)])"
    by code_simp
  moreover have "board (resetRoom roomX) ! 4 = Null"
    by code_simp
  ultimately show ?thesis using reachable_registryX by blast
qed

text \<open>
  Claim C8, amended.  In every reachable registry the board of a room has exactly nine
  cells, before and after any request.  A reset of the room replaces its board by nine
  empty cells.  No other request changes a non-empty cell of a room that stays
  registered: create, join, leave and disconnect leave the board alone, and a move
  writes only into a cell that is empty.
\<close>

theorem filled_cells_kept:
  assumes reach: "reachable rt rs" and h: "handle rt sid req rs = Returns (rs', out)"
    and look: "map_of rs k = Some r" and look': "map_of rs' k = Some r'"
  shows "length (board r) = 9 \<and> length (board r') = 9 \<and>
         (resetsRoom req rs k \<longrightarrow> board r' = replicate 9 Null) \<and>
         (\<not> resetsRoom req rs k \<longrightarrow>
            (\<forall>i \<in> {0..<9}. board r ! i \<noteq> Null \<longrightarrow> board r' ! i = board r ! i))"
proof -
  note ok = reachable_registryOk[OF reach]
  from registryOk_lookup[OF ok look] have nine: "length (board r) = 9" by (simp add: roomOk_def)
  from registryOk_lookup[OF registryOk_handle[OF ok h] look']
  have nine': "length (board r') = 9" by (simp add: roomOk_def)
  have moved: "board r ! i \<noteq> Null \<Longrightarrow> board (movedRoom index symbol r) ! i = board r ! i"
    if "movePrecondition r index symbol" for index symbol i
  proof -
    from that have "boardAt (board r) index = Null" by (simp add: movePrecondition_def)
    from boardAt_Null[OF this] have "board r ! nat index = Null" by simp
    then show "board r ! i \<noteq> Null \<Longrightarrow> board (movedRoom index symbol r) ! i = board r ! i"
      by (cases "i = nat index") (simp_all add: movedRoom_def)
  qed
  from handle_lookup[OF ok h look] look' moved
  have "(resetsRoom req rs k \<longrightarrow> board r' = replicate 9 Null) \<and>
         (\<not> resetsRoom req rs k \<longrightarrow>
            (\<forall>i \<in> {0..<9}. board r ! i \<noteq> Null \<longrightarrow> board r' ! i = board r ! i))"
    by (cases req) (auto simp: joinedRoom_def resetRoom_def withoutPlayer_def split: if_splits)
  with nine nine' show ?thesis by simp
qed


theorem filled_cells_kept_witness:
  "reachable ascii registryX \<and>
   handle ascii ''b'' (Move (Str (JS ''room-17-aaaaaa'')) 0 (Str (JS ''O''))) registryX =
     Returns ([(JS ''AAAAAA'', movedRoom 0 (Str (JS ''O'')) roomX)],
           [IoToEmit (Str (JS ''room-17-aaaaaa''))
              (GameMove ((board roomX)[0 := Str (JS ''O'')]) (JS ''X'') Null)]) \<and>
   map_of registryX (JS ''AAAAAA'') = Some roomX \<and>
   map_of [(JS ''AAAAAA'', movedRoom 0 (Str (JS ''O'')) roomX)] (JS ''AAAAAA'') = Some (movedRoom 0 (Str (JS ''O'')) roomX) \<and>
   board roomX ! 4 = Str (JS ''X'') \<and>
   board (movedRoom 0 (Str (JS ''O'')) roomX) ! 4 = board roomX ! 4 \<and>
   length (board (movedRoom 0 (Str (JS ''O'')) roomX)) = 9"
proof -
  have h: "handle ascii ''b'' (Move (Str (JS ''room-17-aaaaaa'')) 0 (Str (JS ''O''))) registryX =
     Returns ([(JS ''AAAAAA'', movedRoom 0 (Str (JS ''O'')) roomX)],
           [IoToEmit (Str (JS ''room-17-aaaaaa''))
              (GameMove ((board roomX)[0 := Str (JS ''O'')]) (JS ''X'') Null)])"
    by code_simp
  have look: "map_of registryX (JS ''AAAAAA'') = Some roomX"
    by code_simp
  have look': "map_of [(JS ''AAAAAA'', movedRoom 0 (Str (JS ''O'')) roomX)] (JS ''AAAAAA'') =
      Some (movedRoom 0 (Str (JS ''O'')) roomX)"
    by simp
  have x: "board roomX ! 4 = Str (JS ''X'')"
    by code_simp
  note kept = filled_cells_kept[OF reachable_registryX h look look']
  from kept have "\<forall>i \<in> {0..<9}. board roomX ! i \<noteq> Null \<longrightarrow>
      board (movedRoom 0 (Str (JS ''O'')) roomX) ! i = board roomX ! i"
    by simp
  then have "board roomX ! 4 \<noteq> Null \<longrightarrow>
      board (movedRoom 0 (Str (JS ''O'')) roomX) ! 4 = board roomX ! 4"
    by simp
  with x have "board (movedRoom 0 (Str (JS ''O'')) roomX) ! 4 = board roomX ! 4"
    by simp
  with kept h look look' x reachable_registryX show ?thesis by blast
qed

section \<open>Status and number of players\<close>

text \<open>
  Claim C2, as it is stated, has every playing room hold exactly two players in every
  reachable state.  The leave handler takes the sender out of the players and leaves the
  status alone: when \<open>b\<close> leaves the playing room of \<open>a\<close> and \<open>b\<close>, the room
  stays registered with status playing and one player.
\<close>

theorem playing_room_after_leave_counterexample:
  "reachable ascii registryA \<and>
   handle ascii ''b'' (Leave (Str (JS ''room-17-aaaaaa''))) registryA =
     Returns ([(JS ''AAAAAA'', withoutPlayer ''b'' roomA)],
           [SocketEmit ''b'' GameLeft,
            SocketToEmit ''b'' (Str (JS ''room-17-aaaaaa'')) GameOpponentLeft,
            SocketLeave ''b'' (Str (JS ''room-17-aaaaaa''))]) \<and>
   reachable ascii [(JS ''AAAAAA'', withoutPlayer ''b'' roomA)] \<and>
   gameStatus (withoutPlayer ''b'' roomA) = Playing \<and>
   players (withoutPlayer ''b'' roomA) = [''a''] \<and>
   \<not> statusMatchesPlayers (withoutPlayer ''b'' roomA)"
proof -
  have h: "handle ascii ''b'' (Leave (Str (JS ''room-17-aaaaaa''))) registryA =
     Returns ([(JS ''AAAAAA'', withoutPlayer ''b'' roomA)],
           [SocketEmit ''b'' GameLeft,
            SocketToEmit ''b'' (Str (JS ''room-17-aaaaaa'')) GameOpponentLeft,
            SocketLeave ''b'' (Str (JS ''room-17-aaaaaa''))])"
    by code_simp
  from reachable.step[OF reachable_registryA h]
  have "reachable ascii [(JS ''AAAAAA'', withoutPlayer ''b'' roomA)]" .
  moreover have "gameStatus (withoutPlayer ''b'' roomA) = Playing"
    by code_simp
  moreover have "players (withoutPlayer ''b'' roomA) = [''a'']"
    by code_simp
  moreover have "\<not> statusMatchesPlayers (withoutPlayer ''b'' roomA)"
    by code_simp
  ultimately show ?thesis using h reachable_registryA by blast
qed

lemma statusMatches_newRoom: "statusMatchesPlayers (newRoom sid fid)"
  by (simp add: statusMatchesPlayers_def newRoom_def)

text \<open>
  Claim C2, amended.  In every reachable registry a waiting room has exactly one player
  and every room has one or two players.  Create, join and move preserve the full
  relation (playing implies two players, waiting implies one).  Leave and disconnect
  take the sender out of the players of a room without touching its status, and a
  reset sets the status to playing and leaves the players as they are, so for them
  nothing more than the first sentence holds.
\<close>

theorem status_and_player_count:
  assumes reach: "reachable rt rs"
  shows "(\<forall>p \<in> set rs.
            (gameStatus (snd p) = Waiting \<longrightarrow> length (players (snd p)) = 1) \<and>
            (length (players (snd p)) = 1 \<or> length (players (snd p)) = 2)) \<and>
         (keepsStatusRelation req \<and> handle rt sid req rs = Returns (rs', out) \<and>
          (\<forall>p \<in> set rs. statusMatchesPlayers (snd p)) \<longrightarrow>
            (\<forall>p \<in> set rs'. statusMatchesPlayers (snd p))) \<and>
         (handle rt sid req rs = Returns (rs', out) \<and> map_of rs k = Some r \<and>
          map_of rs' k = Some r' \<longrightarrow>
            (removesSenderFrom req rs k \<longrightarrow>
               gameStatus r' = gameStatus r \<and>
               players r' = filter (\<lambda>id. id \<noteq> sid) (players r)) \<and>
            (resetsRoom req rs k \<longrightarrow> gameStatus r' = Playing \<and> players r' = players r))"
proof -
  note ok = reachable_registryOk[OF reach]
  have count: "length (players r) = 1 \<or> length (players r) = 2" if "roomOk r" for r
  proof -
    from that have "0 < length (players r)" and "length (players r) \<le> 2"
      by (simp_all add: roomOk_def)
    then show ?thesis by arith
  qed
  from ok count have first: "\<forall>p \<in> set rs.
            (gameStatus (snd p) = Waiting \<longrightarrow> length (players (snd p)) = 1) \<and>
            (length (players (snd p)) = 1 \<or> length (players (snd p)) = 2)"
    by (auto simp: registryOk_def roomOk_def)
  have second: "statusMatchesPlayers (snd p)"
    if keeps: "keepsStatusRelation req" and h: "handle rt sid req rs = Returns (rs', out)"
      and before: "\<forall>p \<in> set rs. statusMatchesPlayers (snd p)" and p: "p \<in> set rs'" for p
  proof -
    obtain k r' where kr: "p = (k, r')" by (cases p)
    from registryOk_handle[OF ok h] have "distinct (map fst rs')" by (simp add: registryOk_def)
    with p kr have look': "map_of rs' k = Some r'" by simp
    show ?thesis
    proof (cases "map_of rs k")
      case None
      from ok have "distinct (map fst rs)" by (simp add: registryOk_def)
      from handle_fresh[OF this h None] look' statusMatches_newRoom kr show ?thesis by auto
    next
      case (Some r)
      from map_of_SomeD[OF Some] before have m: "statusMatchesPlayers r" by auto
      from count[OF registryOk_lookup[OF ok Some]]
      have c: "length (players r) = 1 \<or> length (players r) = 2" .
      from handle_lookup[OF ok h Some] keeps look' m c have "statusMatchesPlayers r'"
        by (cases req)
          (auto simp: statusMatchesPlayers_def joinedRoom_def movedRoom_def movePrecondition_def
                split: if_splits)
      with kr show ?thesis by simp
    qed
  qed
  have third: "(removesSenderFrom req rs k \<longrightarrow>
               gameStatus r' = gameStatus r \<and>
               players r' = filter (\<lambda>id. id \<noteq> sid) (players r)) \<and>
            (resetsRoom req rs k \<longrightarrow> gameStatus r' = Playing \<and> players r' = players r)"
    if h: "handle rt sid req rs = Returns (rs', out)" and look: "map_of rs k = Some r"
      and look': "map_of rs' k = Some r'"
    using handle_lookup[OF ok h look] look'
    by (cases req) (auto simp: withoutPlayer_def resetRoom_def split: if_splits)
  from first second third show ?thesis by blast
qed

theorem status_and_player_count_witness:
  "reachable ascii registryW \<and> keepsStatusRelation (JoinRoom (Str (JS ''aaaaaa''))) \<and>
   handle ascii ''b'' (JoinRoom (Str (JS ''aaaaaa''))) registryW =
     Returns (registryA,
           [SocketJoin ''b'' (JS ''room-17-aaaaaa''),
            SocketEmit ''b'' (GameJoined (JS ''room-17-aaaaaa'') (JS ''AAAAAA'') (JS ''O'') False),
            IoToEmit (Str (JS ''room-17-aaaaaa'')) (GamePlayerJoined (JS ''X''))]) \<and>
   statusMatchesPlayers (newRoom ''a'' (JS ''room-17-aaaaaa'')) \<and>
   statusMatchesPlayers roomA \<and>
   length (players (newRoom ''a'' (JS ''room-17-aaaaaa''))) = 1"
proof -
  have k: "keepsStatusRelation (JoinRoom (Str (JS ''aaaaaa'')))" by simp
  have h: "handle ascii ''b'' (JoinRoom (Str (JS ''aaaaaa''))) registryW =
     Returns (registryA,
           [SocketJoin ''b'' (JS ''room-17-aaaaaa''),
            SocketEmit ''b'' (GameJoined (JS ''room-17-aaaaaa'') (JS ''AAAAAA'') (JS ''O'') False),
            IoToEmit (Str (JS ''room-17-aaaaaa'')) (GamePlayerJoined (JS ''X''))])"
    by code_simp
  have w: "statusMatchesPlayers (newRoom ''a'' (JS ''room-17-aaaaaa''))"
    by (rule statusMatches_newRoom)
  then have before: "\<forall>p \<in> set registryW. statusMatchesPlayers (snd p)"
    by (simp add: registryW_def)
  have one: "length (players (newRoom ''a'' (JS ''room-17-aaaaaa''))) = 1"
    by (simp add: newRoom_def)
  from status_and_player_count[OF reachable_registryW, of "JoinRoom (Str (JS ''aaaaaa''))" "''b''" registryA] k h before
  have "\<forall>p \<in> set registryA. statusMatchesPlayers (snd p)"
    by blast
  then have "statusMatchesPlayers roomA" by (simp add: registryA_def)
  with k h w one reachable_registryW show ?thesis by blast
qed

section \<open>Turns\<close>

lemma move_same_room:
  assumes "findRoom roomId rs = Some (k, r)" and "movePrecondition r index symbol"
  shows "findRoom roomId (fst (move sid roomId index symbol rs)) = Some (k, movedRoom index symbol r)"
  by (simp add: move_accepted[OF assms] findRoom_mutated[OF assms(1)] movedRoom_def)

lemma opposite_marks:
  "m = JS ''X'' \<or> m = JS ''O'' \<Longrightarrow> oppositeMarks (Str m) (Str (opposite m))"
  by (auto simp: oppositeMarks_def opposite_def)

lemma acceptedMark_cases:
  "acceptedMark k req rs = [] \<or>
   (\<exists>roomId index symbol r. req = Move roomId index symbol \<and> findRoom roomId rs = Some (k, r) \<and>
      movePrecondition r index symbol \<and> acceptedMark k req rs = [symbol])"
  by (cases req) (auto split: option.splits)

lemma join_other_room:
  assumes j: "joinRoom rt sid roomId rs = Inr (rs', out)"
    and other: "\<not> (joinPrecondition rt sid roomId rs \<and> joinKey rt roomId = Some k)"
  shows "map_of rs' k = map_of rs k"
  using join_rooms[OF j] other by (auto simp: AList.update_conv')

text \<open>
  A request that neither starts a game in the room under \<open>k\<close> nor is a move accepted
  there leaves the turn of that room, while it is playing, as it was.
\<close>

lemma turn_kept:
  assumes ok: "registryOk rs" and h: "registryAfter (handle rt sid req rs) rs = Some rs'"
    and quiet: "\<not> startsGame rt sid req rs k" and none: "acceptedMark k req rs = []"
    and turn: "\<forall>r. map_of rs k = Some r \<and> gameStatus r = Playing \<longrightarrow> currentPlayer r = c"
  shows "\<forall>r'. map_of rs' k = Some r' \<and> gameStatus r' = Playing \<longrightarrow> currentPlayer r' = c"
proof (cases "handle rt sid req rs")
  case (Throws e)
  with h turn show ?thesis by simp
next
  case Unfinished
  with h show ?thesis by simp
next
  case (Returns res)
  obtain rs1 out where "res = (rs1, out)" by (cases res)
  with Returns h have h': "handle rt sid req rs = Returns (rs', out)" by simp
  from ok have d: "distinct (map fst rs)" by (simp add: registryOk_def)
  show ?thesis
  proof (cases "map_of rs k")
    case None
    from handle_fresh[OF d h' None] show ?thesis by (auto simp: newRoom_def)
  next
    case (Some r)
    note look = handle_lookup[OF ok h' Some]
    note addr = addresses_lookup[OF d Some]
    show ?thesis
    proof (cases req)
      case (CreateRoom rnd now)
      with look Some turn show ?thesis by simp
    next
      case (JoinRoom roomId)
      with h' have j: "joinRoom rt sid roomId rs = Inr (rs', out)" by (simp split: sum.splits)
      from quiet JoinRoom have "\<not> (joinPrecondition rt sid roomId rs \<and> joinKey rt roomId = Some k)"
        by simp
      from join_other_room[OF j this] turn show ?thesis by simp
    next
      case (Move roomId index symbol)
      from none Move addr have "\<not> (addresses roomId rs k \<and> movePrecondition r index symbol)"
        by (auto split: option.splits if_splits)
      with look Move Some turn show ?thesis by simp
    next
      case (Reset roomId)
      with quiet have "\<not> addresses roomId rs k" by simp
      with look Reset Some turn show ?thesis by simp
    next
      case (Leave roomId)
      with look Some turn show ?thesis
        by (auto simp: withoutPlayer_def split: if_splits)
    next
      case Disconnect
      with look Some turn show ?thesis
        by (auto simp: withoutPlayer_def split: if_splits)
    next
      case (NoPayload l)
      with look show ?thesis by simp
    qed
  qed
qed

lemma acceptedMoves_alternating:
  assumes "registryOk rs" and "oneGame rt k evs rs"
    and "\<forall>r. map_of rs k = Some r \<and> gameStatus r = Playing \<longrightarrow> currentPlayer r = c"
  shows "alternating (acceptedMoves rt k evs rs) \<and>
         (\<forall>s rest. acceptedMoves rt k evs rs = s # rest \<longrightarrow> s = Str c)"
  using assms
proof (induction evs arbitrary: rs c)
  case Nil
  show ?case by simp
next
  case (Cons e evs)
  obtain sid req where e: "e = (sid, req)" by (cases e)
  note ok = Cons.prems(1) and turn = Cons.prems(3)
  from ok have d: "distinct (map fst rs)" by (simp add: registryOk_def)
  from Cons.prems(2) e have quiet: "\<not> startsGame rt sid req rs k" by simp
  have list: "acceptedMoves rt k (e # evs) rs =
      acceptedMark k req rs @
      (case registryAfter (handle rt sid req rs) rs of
         None \<Rightarrow> [] | Some rs' \<Rightarrow> acceptedMoves rt k evs rs')"
    by (simp add: e)
  from acceptedMark_cases[of k req rs] show ?case
  proof
    assume none: "acceptedMark k req rs = []"
    show ?thesis
    proof (cases "registryAfter (handle rt sid req rs) rs")
      case None
      with list none show ?thesis by simp
    next
      case (Some rs')
      from Cons.prems(2) e Some have game': "oneGame rt k evs rs'" by simp
      from Cons.IH[OF after_registryOk[OF ok Some] game' turn_kept[OF ok Some quiet none turn]]
        list none Some
      show ?thesis by simp
    qed
  next
    assume "\<exists>roomId index symbol r. req = Move roomId index symbol \<and>
        findRoom roomId rs = Some (k, r) \<and> movePrecondition r index symbol \<and>
        acceptedMark k req rs = [symbol]"
    then obtain roomId index symbol r where req: "req = Move roomId index symbol"
      and found: "findRoom roomId rs = Some (k, r)" and pre: "movePrecondition r index symbol"
      and mark: "acceptedMark k req rs = [symbol]"
      by blast
    from findRoom_map_of[OF d found] have look: "map_of rs k = Some r" .
    from pre have playing: "gameStatus r = Playing" and sym: "symbol = Str (currentPlayer r)"
      by (simp_all add: movePrecondition_def)
    from turn look playing have c: "currentPlayer r = c" by simp
    from registryOk_lookup[OF ok look] c have xo: "c = JS ''X'' \<or> c = JS ''O''"
      by (simp add: roomOk_def)
    let ?rs' = "fst (move sid roomId index symbol rs)"
    have h: "handle rt sid req rs = Returns (?rs', snd (move sid roomId index symbol rs))"
      by (simp add: req)
    have after: "registryAfter (handle rt sid req rs) rs = Some ?rs'"
      by (cases "move sid roomId index symbol rs") (simp add: req)
    from Cons.prems(2) e after have game': "oneGame rt k evs ?rs'" by simp
    from found have "addresses roomId rs k" by (simp add: addresses_def)
    with handle_lookup[OF ok h look] req pre
    have look': "map_of ?rs' k = Some (movedRoom index symbol r)" by simp
    then have turn': "\<forall>r'. map_of ?rs' k = Some r' \<and> gameStatus r' = Playing \<longrightarrow>
        currentPlayer r' = opposite c"
      by (simp add: movedRoom_def c)
    note IH = Cons.IH[OF after_registryOk[OF ok after] game' turn']
    from list mark after have whole:
      "acceptedMoves rt k (e # evs) rs = symbol # acceptedMoves rt k evs ?rs'"
      by simp
    have "alternating (symbol # acceptedMoves rt k evs ?rs')"
    proof (cases "acceptedMoves rt k evs ?rs'")
      case Nil
      then show ?thesis by simp
    next
      case (Cons s' rest)
      with IH have "s' = Str (opposite c)" by simp
      with opposite_marks[OF xo] sym c have opp: "oppositeMarks symbol s'" by simp
      from IH have "alternating (acceptedMoves rt k evs ?rs')" by (rule conjunct1)
      with Cons have "alternating (s' # rest)" by simp
      with opp Cons show ?thesis by simp
    qed
    with whole sym c show ?thesis by simp
  qed
qed

text \<open>
  Claim C7, as it is stated, has the accepted moves alternate between a game start
  and the next reset.  A join sets currentPlayer to lastStartingPlayer and leaves the
  board as it is: X plays, \<open>b\<close> leaves, \<open>c\<close> joins the room, and X is accepted
  again, with no reset among the four requests.
\<close>

theorem rejoin_repeats_mark_counterexample:
  "reachable ascii registryA \<and>
   list_all (\<lambda>e. \<not> isReset (snd e)) rejoinA \<and>
   acceptedMoves ascii (JS ''AAAAAA'') rejoinA registryA = [Str (JS ''X''), Str (JS ''X'')] \<and>
   \<not> alternating (acceptedMoves ascii (JS ''AAAAAA'') rejoinA registryA)"
proof -
  have "list_all (\<lambda>e. \<not> isReset (snd e)) rejoinA"
    by code_simp
  moreover have "acceptedMoves ascii (JS ''AAAAAA'') rejoinA registryA = [Str (JS ''X''), Str (JS ''X'')]"
    by code_simp
  moreover have "\<not> alternating (acceptedMoves ascii (JS ''AAAAAA'') rejoinA registryA)"
    by code_simp
  ultimately show ?thesis using reachable_registryA by blast
qed

text \<open>
  Claim C7, amended.  Within one game of a room, that is in a run of requests of which
  none is a join of the room that succeeds or a reset that finds it, the marks of the
  moves accepted in the room alternate between the two symbols, whatever other requests
  (moves that are rejected, requests for other rooms, leaves, disconnects, creations,
  requests that throw) come between them.  In one step: after an accepted move by a
  symbol, the room's currentPlayer is the opposite symbol, and any move the room accepts
  next is by that opposite symbol.  A join that succeeds, like a reset, sets
  currentPlayer to the opener.
\<close>

theorem accepted_moves_alternate:
  assumes reach: "reachable rt rs" and game: "oneGame rt k evs rs"
  shows "alternating (acceptedMoves rt k evs rs) \<and>
         (findRoom roomId rs = Some (k, r) \<and> movePrecondition r index symbol \<longrightarrow>
            findRoom roomId (fst (move sid roomId index symbol rs)) = Some (k, movedRoom index symbol r) \<and>
            oppositeMarks symbol (Str (currentPlayer (movedRoom index symbol r))) \<and>
            (\<forall>index' symbol'. movePrecondition (movedRoom index symbol r) index' symbol' \<longrightarrow>
               oppositeMarks symbol symbol'))"
proof -
  note ok = reachable_registryOk[OF reach]
  let ?c = "case map_of rs k of None \<Rightarrow> [] | Some r \<Rightarrow> currentPlayer r"
  have "\<forall>r. map_of rs k = Some r \<and> gameStatus r = Playing \<longrightarrow> currentPlayer r = ?c"
    by simp
  from acceptedMoves_alternating[OF ok game this]
  have first: "alternating (acceptedMoves rt k evs rs)" by simp
  have second: "findRoom roomId (fst (move sid roomId index symbol rs)) = Some (k, movedRoom index symbol r) \<and>
            oppositeMarks symbol (Str (currentPlayer (movedRoom index symbol r))) \<and>
            (\<forall>index' symbol'. movePrecondition (movedRoom index symbol r) index' symbol' \<longrightarrow>
               oppositeMarks symbol symbol')"
    if found: "findRoom roomId rs = Some (k, r)" and pre: "movePrecondition r index symbol"
  proof -
    from registryOk_find[OF ok found]
    have mark: "currentPlayer r = JS ''X'' \<or> currentPlayer r = JS ''O''" by (simp add: roomOk_def)
    from pre have sym: "symbol = Str (currentPlayer r)" by (simp add: movePrecondition_def)
    from opposite_marks[OF mark] sym
    have opp: "oppositeMarks symbol (Str (currentPlayer (movedRoom index symbol r)))"
      by (simp add: movedRoom_def)
    then have "\<forall>index' symbol'. movePrecondition (movedRoom index symbol r) index' symbol' \<longrightarrow>
               oppositeMarks symbol symbol'"
      by (simp add: movePrecondition_def)
    with opp move_same_room[OF found pre, of sid] show ?thesis by simp
  qed
  from first second show ?thesis by blast
qed

theorem accepted_moves_alternate_witness:
  "reachable ascii registryA \<and> oneGame ascii (JS ''AAAAAA'') gameA registryA \<and>
   acceptedMoves ascii (JS ''AAAAAA'') gameA registryA =
     [Str (JS ''X''), Str (JS ''O''), Str (JS ''X'')] \<and>
   alternating (acceptedMoves ascii (JS ''AAAAAA'') gameA registryA) \<and>
   findRoom (Str (JS ''room-17-aaaaaa'')) registryA = Some (JS ''AAAAAA'', roomA) \<and>
   movePrecondition roomA 4 (Str (JS ''X'')) \<and>
   findRoom (Str (JS ''room-17-aaaaaa''))
       (fst (move ''a'' (Str (JS ''room-17-aaaaaa'')) 4 (Str (JS ''X'')) registryA)) =
     Some (JS ''AAAAAA'', movedRoom 4 (Str (JS ''X'')) roomA) \<and>
   oppositeMarks (Str (JS ''X'')) (Str (currentPlayer (movedRoom 4 (Str (JS ''X'')) roomA)))"
proof -
  have game: "oneGame ascii (JS ''AAAAAA'') gameA registryA"
    by code_simp
  have marks: "acceptedMoves ascii (JS ''AAAAAA'') gameA registryA =
      [Str (JS ''X''), Str (JS ''O''), Str (JS ''X'')]"
    by code_simp
  have found: "findRoom (Str (JS ''room-17-aaaaaa'')) registryA = Some (JS ''AAAAAA'', roomA)"
    by code_simp
  have pre: "movePrecondition roomA 4 (Str (JS ''X''))"
    by code_simp
  from accepted_moves_alternate[OF reachable_registryA game, of "Str (JS ''room-17-aaaaaa'')"
      roomA 4 "Str (JS ''X'')" "''a''"]
    game marks found pre reachable_registryA
  show ?thesis by blast
qed

end
